theory Spec2Isabelle
  imports
    Main
    "HOL-Library.Sublist"
    "HOL-Library.Char_ord"
    "HOL-Library.List_Lexorder"
    "HOL-Library.Product_Lexorder"
    "HOL-Library.AList"
    "HOL-Library.Multiset"
begin

section \<open>The SQL completer of okcli (\<^verbatim>\<open>okcli/sqlcompleter.py\<close>)\<close>

text \<open>
  A shallow embedding of the class \<^verbatim>\<open>SQLCompleter\<close>. One instance of the class is a
  record of its attributes; a method takes the record and returns the updated one. A
  method that can leave by an exception returns a sum, with the exception and the
  object as the exception left it on the left. Python strings are modelled as
  \<^typ>\<open>string\<close> restricted to ASCII: \<^verbatim>\<open>str.lower\<close> and \<^verbatim>\<open>str.upper\<close> change the
  letters \<^verbatim>\<open>A-Z\<close> and \<^verbatim>\<open>a-z\<close> only, and strings compare by character code.
\<close>

subsection \<open>Strings\<close>

text \<open>
  \<^verbatim>\<open>str.lower\<close> and \<^verbatim>\<open>str.upper\<close> on ASCII: the two cases of a letter differ in the
  bit of value 32 (the sixth argument of \<^const>\<open>Char\<close>, which lists the bits from the
  lowest).
\<close>

definition char_lower :: "char \<Rightarrow> char" where
  "char_lower c =
     (if CHR ''A'' \<le> c \<and> c \<le> CHR ''Z''
      then (case c of Char b0 b1 b2 b3 b4 b5 b6 b7 \<Rightarrow> Char b0 b1 b2 b3 b4 True b6 b7)
      else c)"

definition char_upper :: "char \<Rightarrow> char" where
  "char_upper c =
     (if CHR ''a'' \<le> c \<and> c \<le> CHR ''z''
      then (case c of Char b0 b1 b2 b3 b4 b5 b6 b7 \<Rightarrow> Char b0 b1 b2 b3 b4 False b6 b7)
      else c)"

definition lower :: "string \<Rightarrow> string" where
  "lower s = map char_lower s"

definition upper :: "string \<Rightarrow> string" where
  "upper s = map char_upper s"

text \<open>
  \<^verbatim>\<open>s.find(sub, 0, end)\<close>: the lowest index at which \<open>sub\<close> occurs inside
  \<^verbatim>\<open>s[0:end]\<close>, with \<open>None\<close> for Python's \<open>-1\<close>; \<open>end = None\<close> is the end of \<open>s\<close>.
\<close>

fun find_from :: "string \<Rightarrow> string \<Rightarrow> nat option" where
  "find_from sub [] = (if sub = [] then Some 0 else None)"
| "find_from sub (x # xs) =
     (if prefix sub (x # xs) then Some 0 else map_option Suc (find_from sub xs))"

definition str_find :: "string \<Rightarrow> string \<Rightarrow> nat option \<Rightarrow> nat option" where
  "str_find s sub end_limit =
     find_from sub (case end_limit of None \<Rightarrow> s | Some e \<Rightarrow> take e s)"

subsection \<open>The regular expression of the fuzzy matcher\<close>

text \<open>
  \<^verbatim>\<open>find_matches\<close> compiles \<^verbatim>\<open>'(%s)' % '.*?'.join(map(escape, text))\<close>: the characters
  of \<open>text\<close>, each matched literally, with a lazy \<^verbatim>\<open>.*?\<close> between neighbours. The
  functions below are Python's \<^verbatim>\<open>re\<close> on the patterns of this shape. A dot matches
  every character but the line feed. A lazy star first tries to go on with the rest of
  the pattern and takes one more character only when that fails.

  \<open>lazy_gaps cs s\<close> matches \<^verbatim>\<open>.*?c\<close> for every \<open>c\<close> of \<open>cs\<close> at the start of \<open>s\<close> and
  returns the number of characters consumed.
\<close>

definition line_feed :: char where
  "line_feed = CHR 0x0A"

fun lazy_gaps :: "string \<Rightarrow> string \<Rightarrow> nat option" where
  "lazy_gaps [] s = Some 0"
| "lazy_gaps (c # cs) [] = None"
| "lazy_gaps (c # cs) (x # xs) =
     (case (if x = c then lazy_gaps cs xs else None) of
        Some n \<Rightarrow> Some (Suc n)
      | None \<Rightarrow> if x = line_feed then None else map_option Suc (lazy_gaps (c # cs) xs))"

text \<open>\<open>match_at pat s\<close>: the length of the match of the whole pattern at the start of \<open>s\<close>.\<close>

fun match_at :: "string \<Rightarrow> string \<Rightarrow> nat option" where
  "match_at [] s = Some 0"
| "match_at (c # cs) [] = None"
| "match_at (c # cs) (x # xs) = (if x = c then map_option Suc (lazy_gaps cs xs) else None)"

text \<open>
  \<^verbatim>\<open>pat.search(s)\<close>: the match at the leftmost position that has one, as the pair of
  \<^verbatim>\<open>r.start()\<close> and \<^verbatim>\<open>len(r.group())\<close>.
\<close>

fun re_search :: "string \<Rightarrow> string \<Rightarrow> (nat \<times> nat) option" where
  "re_search pat [] = map_option (Pair 0) (match_at pat [])"
| "re_search pat (x # xs) =
     (case match_at pat (x # xs) of
        Some n \<Rightarrow> Some (0, n)
      | None \<Rightarrow> map_option (\<lambda>(st, n). (Suc st, n)) (re_search pat xs))"

subsection \<open>Completions and the matcher\<close>

text \<open>\<^verbatim>\<open>prompt_toolkit.completion.Completion(text, start_position)\<close>.\<close>

datatype completion = Completion (completion_text: string) (start_position: int)

text \<open>
  The two loops of \<^verbatim>\<open>find_matches\<close> append one triple for an item that matches and
  nothing for one that does not.
\<close>

definition fuzzy_entry :: "string \<Rightarrow> string \<Rightarrow> (nat \<times> nat \<times> string) option" where
  "fuzzy_entry text item =
     (case re_search text (lower item) of
        Some (start, len) \<Rightarrow> Some (len, start, item)
      | None \<Rightarrow> None)"

definition find_entry :: "string \<Rightarrow> nat option \<Rightarrow> string \<Rightarrow> (nat \<times> nat \<times> string) option" where
  "find_entry text match_end_limit item =
     (case str_find (lower item) text match_end_limit of
        Some match_point \<Rightarrow> Some (length text, match_point, item)
      | None \<Rightarrow> None)"

text \<open>
  \<^verbatim>\<open>find_matches(text, collection, start_only=False, fuzzy=True)\<close>. The helper
  \<^verbatim>\<open>last_word\<close> of \<^verbatim>\<open>okcli/packages/parseutils.py\<close> is called with
  \<^verbatim>\<open>include='most_punctuations'\<close>; that module is not embedded here, so the function
  is the parameter \<open>last_word\<close>, and what is proved of \<open>find_matches\<close> holds for every
  such function. \<open>scored_matches\<close> is the list \<^verbatim>\<open>completions\<close> after the final
  \<^verbatim>\<open>sorted\<close>.
\<close>

definition scored_matches ::
  "(string \<Rightarrow> string) \<Rightarrow> string \<Rightarrow> string list \<Rightarrow> bool \<Rightarrow> bool \<Rightarrow> (nat \<times> nat \<times> string) list" where
  "scored_matches last_word text0 collection start_only fuzzy =
     (let text = lower (last_word text0);
          completions =
            (if fuzzy then List.map_filter (fuzzy_entry text) (sort collection)
             else
               let match_end_limit = (if start_only then Some (length text) else None)
               in List.map_filter (find_entry text match_end_limit) (sort collection))
      in sort completions)"

definition find_matches ::
  "(string \<Rightarrow> string) \<Rightarrow> string \<Rightarrow> string list \<Rightarrow> bool \<Rightarrow> bool \<Rightarrow> completion list" where
  "find_matches last_word text0 collection start_only fuzzy =
     (let text = lower (last_word text0)
      in map (\<lambda>(x, y, z). Completion z (- int (length text)))
           (scored_matches last_word text0 collection start_only fuzzy))"

subsection \<open>Dictionaries, exceptions and lazy sequences\<close>

text \<open>
  A Python \<^verbatim>\<open>dict\<close> with string keys is an association list with distinct keys in
  insertion order: \<^const>\<open>AList.update\<close> replaces the value of a key in place and appends
  a new key at the end, as \<^verbatim>\<open>d[k] = v\<close> does. \<^verbatim>\<open>d[k]\<close> raises \<^verbatim>\<open>KeyError\<close> on a
  missing key.
\<close>

type_synonym 'v dict = "(string \<times> 'v) list"

datatype error = KeyError | IndexError | ValueError

definition getitem :: "'v dict \<Rightarrow> string \<Rightarrow> error + 'v" where
  "getitem d k = (case map_of d k of None \<Rightarrow> Inl KeyError | Some v \<Rightarrow> Inr v)"

definition setitem :: "'v dict \<Rightarrow> string \<Rightarrow> 'v \<Rightarrow> 'v dict" where
  "setitem d k v = AList.update k v d"

definition dict_keys :: "'v dict \<Rightarrow> string list" where
  "dict_keys d = map fst d"

text \<open>
  The rows handed to the \<^verbatim>\<open>extend_*\<close> methods come from a generator that can raise
  while it is consumed: the sequence ends (\<open>Done\<close>), yields a row, or raises an
  \<^verbatim>\<open>Exception\<close>. \<open>consume\<close> is \<^verbatim>\<open>[d for d in data]\<close>: the list of all rows, or \<open>None\<close>
  when the generator raised before its end.
\<close>

datatype 'a lazy_seq = Done | Yield 'a "'a lazy_seq" | Raise

fun consume :: "'a lazy_seq \<Rightarrow> 'a list option" where
  "consume Done = Some []"
| "consume (Yield x rest) = map_option ((#) x) (consume rest)"
| "consume Raise = None"

text \<open>
  The truth value of an optional string, and \<^verbatim>\<open>a or b\<close>: \<^verbatim>\<open>None\<close> and the empty
  string are false.
\<close>

fun truthy :: "string option \<Rightarrow> bool" where
  "truthy None = False"
| "truthy (Some a) = (a \<noteq> [])"

definition py_or :: "string option \<Rightarrow> string \<Rightarrow> string" where
  "py_or a d = (if truthy a then the a else d)"

subsection \<open>The completer object\<close>

text \<open>
  The attributes of one \<^verbatim>\<open>SQLCompleter\<close>. \<^verbatim>\<open>keywords\<close> is \<^verbatim>\<open>ORACLE_KEYWORDS\<close> of
  \<^verbatim>\<open>okcli/lexer.py\<close>, a module that is not embedded here, so it is a field with no
  fixed value; the field is \<open>keywords_list\<close> and the class attribute \<^verbatim>\<open>functions\<close> is
  \<open>functions_list\<close>, the two names being reserved words of Isabelle. \<^verbatim>\<open>dbmetadata\<close> is the three fields \<open>meta_tables\<close>, \<open>meta_views\<close> and
  \<open>meta_functions\<close>: schema to object name to the list of column names (tables and
  views) or to \<^verbatim>\<open>None\<close> (functions). The attributes \<^verbatim>\<open>reserved_words\<close> and
  \<^verbatim>\<open>name_pattern\<close> are set by the constructor and read by no method; they are left out.
\<close>

record completer =
  smart_completion :: bool
  keywords_list :: "string list"
  special_commands :: "string list"
  table_formats :: "string list"
  databases :: "string list"
  users :: "string list"
  show_items :: "string list"
  change_items :: "string list"
  dbname :: string
  meta_tables :: "string list dict dict"
  meta_views :: "string list dict dict"
  meta_functions :: "unit dict dict"
  all_completions :: "string set"

text \<open>The built-in function vocabulary: the class attribute \<^verbatim>\<open>functions\<close>.\<close>

definition str_functions :: "string list" where
  "str_functions =
     [''ASCII'', ''ASCIISTR'', ''CHR'', ''COMPOSE'', ''CONCAT'', ''CONVERT'',
      ''DECOMPOSE'', ''DUMP'', ''INITCAP'', ''INSTR'', ''INSTR2'',
      ''INSTR4'', ''INSTRB'', ''INSTRC'',
      ''LENGTH'', ''LENGTH2'', ''LENGTH4'',
      ''LENGTHB'', ''LENGTHC'', ''LOWER'', ''LPAD'', ''LTRIM'', ''NCHR'',
      ''REGEXP_INSTR'', ''REGEXP_REPLACE'', ''REGEXP_SUBSTR'',
      ''REPLACE'', ''RPAD'', ''RTRIM'', ''SOUNDEX'', ''SUBSTR'',
      ''TRANSLATE'', ''TRIM'', ''UPPER'', ''VSIZE'']"

definition num_functions :: "string list" where
  "num_functions =
     [''ABS'', ''ACOS'', ''ASIN'', ''ATAN'', ''ATAN2'',
      ''AVG'', ''BITAND'', ''CEIL'', ''COS'', ''COSH'', ''COUNT'', ''EXP'',
      ''FLOOR'', ''GREATEST'', ''LEAST'', ''LN'', ''LOG'', ''MAX'', ''MEDIAN'',
      ''MIN'', ''MOD'', ''POWER'', ''REGEXP_COUNT'', ''REMAINDER'',
      ''ROUND'', ''ROWNUM'', ''SIGN'', ''SIN'', ''SINH'', ''SQRT'', ''SUM'',
      ''TAN'', ''TANH'', ''TRUNC'']"

definition date_functions :: "string list" where
  "date_functions =
     [''ADD_MONTHS'', ''CURRENT_DATE'', ''CURRENT_TIMESTAMP'',
      ''DBTIMEZONE'', ''EXTRACT'', ''LAST_DAY'', ''LOCALTIMESTAMP'',
      ''MONTHS_BETWEEN'', ''NEW_TIME'', ''NEXT_DAY'', ''ROUND'',
      ''SESSIONTIMEZONE'', ''SYSDATE'', ''SYSTIMESTAMP'', ''TRUNC'',
      ''TZ_OFFSET'']"

definition conv_functions :: "string list" where
  "conv_functions =
     [''BIN_TO_NUM'', ''CAST'', ''CHARTOROWID'', ''FROM_TZ'',
      ''HEXTORAW'', ''NUMTODSINTERVAL'', ''NUMTOYMINTERVAL'',
      ''RAWTOHEX'', ''TO_CHAR'', ''TO_CLOB'', ''TO_DATE'',
      ''TO_DSINTERVAL'', ''TO_LOB'', ''TO_MULTI_BYTE'', ''TO_NCLOB'',
      ''TO_NUMBER'', ''TO_SINGLE_BYTE'', ''TO_TIMESTAMP'',
      ''TO_TIMESTAMP_TZ'', ''TO_YMINTERVAL'']"

definition analytic_functions :: "string list" where
  "analytic_functions =
     [''CORR'', ''COVAR_POP'', ''COVAR_SAMP'', ''CUME_DIST'',
      ''DENSE_RANK'', ''FIRST_VALUE'', ''LAG'', ''LAST_VALUE'',
      ''LEAD'', ''LISTAGG'', ''NTH_VALUE'', ''RANK'', ''STDDEV'',
      ''VAR_POP'', ''VAR_SAMP'', ''VARIANCE'']"

definition advanced_fuctions :: "string list" where
  "advanced_fuctions =
     [''BFILENAME'', ''CARDINALITY'', ''CASE'', ''COALESCE'',
      ''DECODE'', ''EMPTY_BLOB'', ''EMPTY_CLOB'', ''GROUP_ID'',
      ''LNNVL'', ''NANVL'', ''NULLIF'', ''NVL'', ''NVL2'',
      ''SYS_CONTEXT'',
      ''UID'',
      ''USER'',
      ''USERENV'']"

text \<open>\<^verbatim>\<open>sorted\<close> of the set of all of them: duplicates removed, in ascending order.\<close>

definition functions_list :: "string list" where
  "functions_list =
     sort (remdups (str_functions @ num_functions @ date_functions @ conv_functions
                    @ analytic_functions @ advanced_fuctions))"

subsection \<open>Names\<close>

definition escape_name :: "string \<Rightarrow> string" where
  "escape_name name = name"

text \<open>\<^verbatim>\<open>unescape_name\<close>: a name in double quotes loses them.\<close>

definition unescape_name :: "string \<Rightarrow> string" where
  "unescape_name name =
     (if name \<noteq> [] \<and> hd name = CHR 0x22 \<and> last name = CHR 0x22
      then butlast (tl name) else name)"

definition escaped_names :: "string list \<Rightarrow> string list" where
  "escaped_names names = map escape_name names"

subsection \<open>Extending the vocabularies\<close>

definition extend_special_commands :: "completer \<Rightarrow> string list \<Rightarrow> completer" where
  "extend_special_commands s cmds = s\<lparr>special_commands := special_commands s @ cmds\<rparr>"

definition extend_database_names :: "completer \<Rightarrow> string list \<Rightarrow> completer" where
  "extend_database_names s dbs = s\<lparr>databases := databases s @ dbs\<rparr>"

definition extend_keywords :: "completer \<Rightarrow> string list \<Rightarrow> completer" where
  "extend_keywords s additional_keywords =
     s\<lparr>keywords_list := keywords_list s @ additional_keywords,
       all_completions := all_completions s \<union> set additional_keywords\<rparr>"

text \<open>
  The items of the next three methods are rows (tuples of strings): \<^verbatim>\<open>list.extend\<close>
  and \<^verbatim>\<open>set.update\<close> add the elements of the row.
\<close>

definition extend_show_items :: "completer \<Rightarrow> string list list \<Rightarrow> completer" where
  "extend_show_items s items =
     foldl (\<lambda>s show_item.
              s\<lparr>show_items := show_items s @ show_item,
                all_completions := all_completions s \<union> set show_item\<rparr>) s items"

definition extend_change_items :: "completer \<Rightarrow> string list list \<Rightarrow> completer" where
  "extend_change_items s items =
     foldl (\<lambda>s change_item.
              s\<lparr>change_items := change_items s @ change_item,
                all_completions := all_completions s \<union> set change_item\<rparr>) s items"

definition extend_users :: "completer \<Rightarrow> string list list \<Rightarrow> completer" where
  "extend_users s us =
     foldl (\<lambda>s user.
              s\<lparr>users := users s @ user,
                all_completions := all_completions s \<union> set user\<rparr>) s us"

subsection \<open>Extending the catalog\<close>

text \<open>
  \<^verbatim>\<open>_extend_schemata\<close>: every dictionary of \<^verbatim>\<open>dbmetadata\<close> gets a new empty dictionary
  under the uppercased name. \<^verbatim>\<open>set.update\<close> is given the name itself, a string, and so
  adds the elements of the string: its characters, each a string of length one.
\<close>

definition u_extend_schemata :: "completer \<Rightarrow> string \<Rightarrow> completer" where
  "u_extend_schemata s schema0 =
     (let schema = upper schema0
      in s\<lparr>meta_tables := setitem (meta_tables s) schema [],
           meta_views := setitem (meta_views s) schema [],
           meta_functions := setitem (meta_functions s) schema [],
           all_completions := all_completions s \<union> set (map (\<lambda>c. [c]) schema)\<rparr>)"

definition extend_schemata :: "completer \<Rightarrow> string list \<Rightarrow> completer" where
  "extend_schemata s schemas = foldl u_extend_schemata s schemas"

text \<open>
  The parameter \<^verbatim>\<open>kind\<close> of \<^verbatim>\<open>extend_relations\<close> and \<^verbatim>\<open>extend_columns\<close> is, by their
  docstrings, either \<^verbatim>\<open>'tables'\<close> or \<^verbatim>\<open>'views'\<close>.
\<close>

datatype kind = Tables | Views

fun get_meta :: "completer \<Rightarrow> kind \<Rightarrow> string list dict dict" where
  "get_meta s Tables = meta_tables s"
| "get_meta s Views = meta_views s"

fun set_meta :: "completer \<Rightarrow> kind \<Rightarrow> string list dict dict \<Rightarrow> completer" where
  "set_meta s Tables m = s\<lparr>meta_tables := m\<rparr>"
| "set_meta s Views m = s\<lparr>meta_views := m\<rparr>"

text \<open>
  A method that raises leaves the object as it was at the raise: the left summand
  holds the exception and that object.
\<close>

type_synonym outcome = "(error \<times> completer) + completer"

text \<open>
  The loop of \<^verbatim>\<open>extend_relations\<close>. \<^verbatim>\<open>relname[0]\<close> raises \<^verbatim>\<open>IndexError\<close> on an empty
  row; the \<^verbatim>\<open>KeyError\<close> of an unknown schema is caught and logged, and the name is added
  to \<^verbatim>\<open>all_completions\<close> in either case.
\<close>

fun extend_relations_loop :: "kind \<Rightarrow> string \<Rightarrow> string list list \<Rightarrow> completer \<Rightarrow> outcome" where
  "extend_relations_loop kind schema [] s = Inr s"
| "extend_relations_loop kind schema (relname # rest) s =
     (case relname of
        [] \<Rightarrow> Inl (IndexError, s)
      | name # _ \<Rightarrow>
          (let s1 = (case getitem (get_meta s kind) schema of
                       Inr rels \<Rightarrow>
                         set_meta s kind
                           (setitem (get_meta s kind) schema (setitem rels name [''*'']))
                     | Inl e \<Rightarrow> s)
           in extend_relations_loop kind schema rest
                (s1\<lparr>all_completions := insert name (all_completions s1)\<rparr>)))"

definition extend_relations :: "completer \<Rightarrow> string list lazy_seq \<Rightarrow> kind \<Rightarrow> string \<Rightarrow> outcome" where
  "extend_relations s data0 kind schema0 =
     (let schema = upper schema0;
          data = (case consume data0 of
                    Some rows \<Rightarrow> map escaped_names rows
                  | None \<Rightarrow> [])
      in extend_relations_loop kind schema data s)"

text \<open>
  The loop of \<^verbatim>\<open>extend_columns\<close>. Unpacking a row that is not a pair raises
  \<^verbatim>\<open>ValueError\<close>; a schema or a relation that is not registered raises \<^verbatim>\<open>KeyError\<close>,
  and nothing catches either.
\<close>

fun extend_columns_loop :: "kind \<Rightarrow> string \<Rightarrow> string list list \<Rightarrow> completer \<Rightarrow> outcome" where
  "extend_columns_loop kind schema [] s = Inr s"
| "extend_columns_loop kind schema (row # rest) s =
     (case row of
        [relname, column] \<Rightarrow>
          (case getitem (get_meta s kind) schema of
             Inl e \<Rightarrow> Inl (e, s)
           | Inr rels \<Rightarrow>
               (case getitem rels relname of
                  Inl e \<Rightarrow> Inl (e, s)
                | Inr cols \<Rightarrow>
                    (let s1 = set_meta s kind
                                (setitem (get_meta s kind) schema
                                   (setitem rels relname (cols @ [column])))
                     in extend_columns_loop kind schema rest
                          (s1\<lparr>all_completions := insert column (all_completions s1)\<rparr>))))
      | _ \<Rightarrow> Inl (ValueError, s))"

definition extend_columns :: "completer \<Rightarrow> string list lazy_seq \<Rightarrow> kind \<Rightarrow> string \<Rightarrow> outcome" where
  "extend_columns s column_data0 kind schema0 =
     (let schema = upper schema0;
          column_data = (case consume column_data0 of
                           Some rows \<Rightarrow> map escaped_names rows
                         | None \<Rightarrow> [])
      in extend_columns_loop kind schema column_data s)"

text \<open>
  The loop of \<^verbatim>\<open>extend_functions\<close>, which does not uppercase its schema. In
  \<^verbatim>\<open>metadata[schema][func[0]] = None\<close> the lookup of the schema comes before \<^verbatim>\<open>func[0]\<close>.
\<close>

fun extend_functions_loop :: "string \<Rightarrow> string list list \<Rightarrow> completer \<Rightarrow> outcome" where
  "extend_functions_loop schema [] s = Inr s"
| "extend_functions_loop schema (func # rest) s =
     (case getitem (meta_functions s) schema of
        Inl e \<Rightarrow> Inl (e, s)
      | Inr fs \<Rightarrow>
          (case func of
             [] \<Rightarrow> Inl (IndexError, s)
           | name # _ \<Rightarrow>
               extend_functions_loop schema rest
                 (s\<lparr>meta_functions := setitem (meta_functions s) schema (setitem fs name ()),
                    all_completions := insert name (all_completions s)\<rparr>)))"

definition extend_functions :: "completer \<Rightarrow> string list lazy_seq \<Rightarrow> string \<Rightarrow> outcome" where
  "extend_functions s func_data0 schema =
     (let func_data = (case consume func_data0 of
                         Some rows \<Rightarrow> map escaped_names rows
                       | None \<Rightarrow> [])
      in extend_functions_loop schema func_data s)"

definition set_dbname :: "completer \<Rightarrow> string \<Rightarrow> completer" where
  "set_dbname s name = s\<lparr>dbname := upper name\<rparr>"

definition reset_completions :: "completer \<Rightarrow> completer" where
  "reset_completions s =
     s\<lparr>databases := [],
       users := [],
       show_items := [],
       dbname := [],
       meta_tables := [],
       meta_views := [],
       meta_functions := [],
       all_completions := set (keywords_list s @ functions_list)\<rparr>"

subsection \<open>Resolving the scope\<close>

text \<open>A table reference of a suggestion: \<^verbatim>\<open>(schema, table, alias)\<close>.\<close>

type_synonym tbl_ref = "string option \<times> string \<times> string option"

text \<open>\<^verbatim>\<open>meta[k][schema][relname]\<close>: either lookup can raise \<^verbatim>\<open>KeyError\<close>.\<close>

definition getitem2 :: "'v dict dict \<Rightarrow> string \<Rightarrow> string \<Rightarrow> error + 'v" where
  "getitem2 m schema name =
     (case getitem m schema of Inl e \<Rightarrow> Inl e | Inr d \<Rightarrow> getitem d name)"

text \<open>
  The loop of \<^verbatim>\<open>populate_scoped_cols\<close> with its list \<^verbatim>\<open>columns\<close>. Each \<^verbatim>\<open>try\<close> catches
  \<^verbatim>\<open>KeyError\<close> and lets every other exception through.
\<close>

fun populate_scoped_cols_loop ::
  "completer \<Rightarrow> tbl_ref list \<Rightarrow> string list \<Rightarrow> error + string list" where
  "populate_scoped_cols_loop s [] columns = Inr columns"
| "populate_scoped_cols_loop s (tbl # rest) columns =
     (let schema = upper (py_or (fst tbl) (dbname s));
          relname = fst (snd tbl);
          escaped_relname = escape_name (fst (snd tbl))
      in case getitem2 (meta_tables s) schema relname of
           Inr cols \<Rightarrow> populate_scoped_cols_loop s rest (columns @ cols)
         | Inl e \<Rightarrow>
             if e \<noteq> KeyError then Inl e
             else
               (case getitem2 (meta_tables s) schema escaped_relname of
                  Inr cols \<Rightarrow> populate_scoped_cols_loop s rest (columns @ cols)
                | Inl e \<Rightarrow>
                    if e \<noteq> KeyError then Inl e
                    else
                      (case getitem2 (meta_views s) schema relname of
                         Inr cols \<Rightarrow> populate_scoped_cols_loop s rest (columns @ cols)
                       | Inl e \<Rightarrow>
                           if e \<noteq> KeyError then Inl e
                           else populate_scoped_cols_loop s rest columns)))"

definition populate_scoped_cols :: "completer \<Rightarrow> tbl_ref list \<Rightarrow> error + string list" where
  "populate_scoped_cols s scoped_tbls = populate_scoped_cols_loop s scoped_tbls []"

text \<open>
  \<^verbatim>\<open>populate_schema_objects(schema, obj_type)\<close>: the keys of \<^verbatim>\<open>dbmetadata[obj_type][schema]\<close>,
  or the empty list when the schema is not there.
\<close>

datatype obj_type = Relations kind | Functions

definition keys_or_empty :: "error + 'v dict \<Rightarrow> error + string list" where
  "keys_or_empty r =
     (case r of
        Inr objects \<Rightarrow> Inr (dict_keys objects)
      | Inl e \<Rightarrow> if e \<noteq> KeyError then Inl e else Inr [])"

definition populate_schema_objects ::
  "completer \<Rightarrow> string option \<Rightarrow> obj_type \<Rightarrow> error + string list" where
  "populate_schema_objects s schema0 ot =
     (let schema = upper (py_or schema0 (dbname s))
      in case ot of
           Relations k \<Rightarrow> keys_or_empty (getitem (get_meta s k) schema)
         | Functions \<Rightarrow> keys_or_empty (getitem (meta_functions s) schema))"

subsection \<open>Suggestions\<close>

text \<open>
  \<^verbatim>\<open>Counter(xs).items()\<close>: every distinct element with the number of its occurrences,
  in the order of the first occurrences.
\<close>

definition counter_add :: "(string \<times> nat) list \<Rightarrow> string \<Rightarrow> (string \<times> nat) list" where
  "counter_add c x =
     AList.update x (case map_of c x of None \<Rightarrow> 1 | Some n \<Rightarrow> Suc n) c"

definition counter_items :: "string list \<Rightarrow> (string \<times> nat) list" where
  "counter_items xs = foldl counter_add [] xs"

text \<open>The filter of the column branch when the suggestion has \<^verbatim>\<open>drop_unique\<close>.\<close>

definition drop_unique_cols :: "string list \<Rightarrow> string list" where
  "drop_unique_cols scoped_cols =
     map fst (filter (\<lambda>(col, count). count > 1 \<and> col \<noteq> ''*'') (counter_items scoped_cols))"

text \<open>
  What \<^verbatim>\<open>suggest_type\<close> of \<^verbatim>\<open>okcli/packages/completion_engine.py\<close> returns: a list of
  dictionaries with a \<^verbatim>\<open>'type'\<close> and, by type, \<^verbatim>\<open>'tables'\<close> and \<^verbatim>\<open>'drop_unique'\<close>,
  \<^verbatim>\<open>'schema'\<close> or \<^verbatim>\<open>'aliases'\<close>. A type that \<^verbatim>\<open>get_completions\<close> has no branch for is
  \<open>Other_sg\<close>.
\<close>

datatype suggestion =
    Column_sg "tbl_ref list" bool
  | Function_sg "string option"
  | Table_sg "string option"
  | View_sg "string option"
  | Alias_sg "string list"
  | Database_sg
  | Schema_sg
  | Keyword_sg
  | Show_sg
  | Change_sg
  | User_sg
  | Special_sg
  | Favoritequery_sg
  | Table_format_sg
  | Other_sg string

text \<open>
  The body of the loop over the suggestions: the completions one suggestion adds.
  \<open>favoritequeries\<close> is the value of \<^verbatim>\<open>favoritequeries.list()\<close>.
\<close>

fun suggestion_completions ::
  "(string \<Rightarrow> string) \<Rightarrow> string list \<Rightarrow> completer \<Rightarrow> string \<Rightarrow> suggestion
     \<Rightarrow> error + completion list" where
  "suggestion_completions lw favoritequeries s word_before_cursor (Column_sg tables drop_unique) =
     (case populate_scoped_cols s tables of
        Inl e \<Rightarrow> Inl e
      | Inr scoped_cols \<Rightarrow>
          Inr (find_matches lw word_before_cursor
                 (if drop_unique then drop_unique_cols scoped_cols else scoped_cols)
                 False True))"
| "suggestion_completions lw favoritequeries s word_before_cursor (Function_sg schema) =
     (case populate_schema_objects s schema Functions of
        Inl e \<Rightarrow> Inl e
      | Inr funcs \<Rightarrow>
          (let user_funcs = find_matches lw word_before_cursor funcs False True
           in if \<not> truthy schema
              then Inr (user_funcs @ find_matches lw word_before_cursor functions_list True False)
              else Inr user_funcs))"
| "suggestion_completions lw favoritequeries s word_before_cursor (Table_sg schema) =
     (case populate_schema_objects s schema (Relations Tables) of
        Inl e \<Rightarrow> Inl e
      | Inr tables \<Rightarrow> Inr (find_matches lw word_before_cursor tables False True))"
| "suggestion_completions lw favoritequeries s word_before_cursor (View_sg schema) =
     (case populate_schema_objects s schema (Relations Views) of
        Inl e \<Rightarrow> Inl e
      | Inr views \<Rightarrow> Inr (find_matches lw word_before_cursor views False True))"
| "suggestion_completions lw favoritequeries s word_before_cursor (Alias_sg aliases) =
     Inr (find_matches lw word_before_cursor aliases False True)"
| "suggestion_completions lw favoritequeries s word_before_cursor Database_sg =
     Inr (find_matches lw word_before_cursor (databases s) False True)"
| "suggestion_completions lw favoritequeries s word_before_cursor Schema_sg =
     Inr (find_matches lw word_before_cursor (databases s) False True)"
| "suggestion_completions lw favoritequeries s word_before_cursor Keyword_sg =
     Inr (find_matches lw word_before_cursor (keywords_list s) True False)"
| "suggestion_completions lw favoritequeries s word_before_cursor Show_sg =
     Inr (find_matches lw word_before_cursor (show_items s) False True)"
| "suggestion_completions lw favoritequeries s word_before_cursor Change_sg =
     Inr (find_matches lw word_before_cursor (change_items s) False True)"
| "suggestion_completions lw favoritequeries s word_before_cursor User_sg =
     Inr (find_matches lw word_before_cursor (users s) False True)"
| "suggestion_completions lw favoritequeries s word_before_cursor Special_sg =
     Inr (find_matches lw word_before_cursor (special_commands s) True False)"
| "suggestion_completions lw favoritequeries s word_before_cursor Favoritequery_sg =
     Inr (find_matches lw word_before_cursor favoritequeries False True)"
| "suggestion_completions lw favoritequeries s word_before_cursor Table_format_sg =
     Inr (find_matches lw word_before_cursor (table_formats s) True False)"
| "suggestion_completions lw favoritequeries s word_before_cursor (Other_sg t) = Inr []"

fun get_completions_loop ::
  "(string \<Rightarrow> string) \<Rightarrow> string list \<Rightarrow> completer \<Rightarrow> string \<Rightarrow> suggestion list
     \<Rightarrow> completion list \<Rightarrow> error + completion list" where
  "get_completions_loop lw favoritequeries s word_before_cursor [] completions = Inr completions"
| "get_completions_loop lw favoritequeries s word_before_cursor (suggestion # rest) completions =
     (case suggestion_completions lw favoritequeries s word_before_cursor suggestion of
        Inl e \<Rightarrow> Inl e
      | Inr found \<Rightarrow>
          get_completions_loop lw favoritequeries s word_before_cursor rest (completions @ found))"

text \<open>
  \<^verbatim>\<open>get_completions(document, complete_event, smart_completion=None)\<close>. Of the document
  the method reads \<^verbatim>\<open>get_word_before_cursor(WORD=True)\<close> and hands the text to
  \<^verbatim>\<open>suggest_type\<close>, whose result is the parameter \<open>suggestions\<close>. Without smart
  completion the candidates are the set \<^verbatim>\<open>all_completions\<close>, which \<^verbatim>\<open>find_matches\<close>
  sorts.
\<close>

definition get_completions ::
  "(string \<Rightarrow> string) \<Rightarrow> string list \<Rightarrow> completer \<Rightarrow> string \<Rightarrow> suggestion list
     \<Rightarrow> bool option \<Rightarrow> error + completion list" where
  "get_completions lw favoritequeries s word_before_cursor suggestions smart_completion0 =
     (let smart = (case smart_completion0 of None \<Rightarrow> smart_completion s | Some b \<Rightarrow> b)
      in if \<not> smart
         then Inr (find_matches lw word_before_cursor
                     (sorted_list_of_set (all_completions s)) True False)
         else get_completions_loop lw favoritequeries s word_before_cursor suggestions [])"

subsection \<open>The constructor and sequences of catalog operations\<close>

text \<open>
  \<^verbatim>\<open>__init__(smart_completion, supported_formats)\<close> for the keyword list \<open>kws\<close>: the
  class attributes, then \<^verbatim>\<open>reset_completions\<close>.
\<close>

definition new_completer :: "bool \<Rightarrow> string list \<Rightarrow> string list \<Rightarrow> completer" where
  "new_completer smart supported_formats kws =
     reset_completions
       \<lparr>smart_completion = smart, keywords_list = kws, special_commands = [],
        table_formats = supported_formats, databases = [], users = [], show_items = [],
        change_items = [], dbname = [], meta_tables = [], meta_views = [],
        meta_functions = [], all_completions = {}\<rparr>"

text \<open>
  The calls that extend the catalog, as data, and the object after a sequence of them.
  A caller that catches the exception of a call goes on with the object as the call
  left it, which is what \<open>run_ops\<close> does.
\<close>

datatype catalog_op =
    Extend_schemata "string list"
  | Extend_relations "string list lazy_seq" kind string
  | Extend_columns "string list lazy_seq" kind string
  | Extend_functions "string list lazy_seq" string
  | Set_dbname string

fun apply_op :: "completer \<Rightarrow> catalog_op \<Rightarrow> outcome" where
  "apply_op s (Extend_schemata schemas) = Inr (extend_schemata s schemas)"
| "apply_op s (Extend_relations data k schema) = extend_relations s data k schema"
| "apply_op s (Extend_columns data k schema) = extend_columns s data k schema"
| "apply_op s (Extend_functions data schema) = extend_functions s data schema"
| "apply_op s (Set_dbname name) = Inr (set_dbname s name)"

fun object_after :: "outcome \<Rightarrow> completer" where
  "object_after (Inl (e, s)) = s"
| "object_after (Inr s) = s"

definition run_ops :: "completer \<Rightarrow> catalog_op list \<Rightarrow> completer" where
  "run_ops s ops = foldl (\<lambda>s op. object_after (apply_op s op)) s ops"

text \<open>The schema keys and the object names that the three dictionaries hold.\<close>

definition schema_keys :: "completer \<Rightarrow> string list" where
  "schema_keys s =
     dict_keys (meta_tables s) @ dict_keys (meta_views s) @ dict_keys (meta_functions s)"

definition object_names :: "completer \<Rightarrow> string list" where
  "object_names s =
     concat (map (\<lambda>(schema, objects). dict_keys objects) (meta_tables s))
     @ concat (map (\<lambda>(schema, objects). dict_keys objects) (meta_views s))
     @ concat (map (\<lambda>(schema, objects). dict_keys objects) (meta_functions s))"

subsection \<open>The words of the specification\<close>

text \<open>
  Modelled from the spec: \<^verbatim>\<open>last_word\<close> of \<^verbatim>\<open>okcli/packages/parseutils.py\<close>, whose file
  is not embedded here. The specification describes it as the last contiguous word
  of the input, where most punctuation is a word boundary and letters, digits and the
  underscore are not. It does not list the punctuation; here every character that is
  not a letter, a digit or the underscore ends the word. The function is used on
  concrete inputs only, whose last word is made of letters and is the whole input or
  follows a space; on these every reading of the sentence agrees.
\<close>

definition is_word_char :: "char \<Rightarrow> bool" where
  "is_word_char c \<longleftrightarrow>
     (CHR ''a'' \<le> c \<and> c \<le> CHR ''z'') \<or> (CHR ''A'' \<le> c \<and> c \<le> CHR ''Z'')
     \<or> (CHR ''0'' \<le> c \<and> c \<le> CHR ''9'') \<or> c = CHR ''_''"

definition last_word :: "string \<Rightarrow> string" where
  "last_word t = rev (takeWhile is_word_char (rev t))"

text \<open>
  The scope resolver in the words of the specification: the columns one reference
  contributes. The schema is the explicit one or else the current database,
  uppercased; the relation is looked up under the tables of the schema, then under the
  escaped form of its name, then under the views; a reference found nowhere
  contributes nothing.
\<close>

definition lookup_relation :: "string list dict dict \<Rightarrow> string \<Rightarrow> string \<Rightarrow> string list option" where
  "lookup_relation m schema name =
     (case map_of m schema of None \<Rightarrow> None | Some rels \<Rightarrow> map_of rels name)"

definition resolved_columns :: "completer \<Rightarrow> tbl_ref \<Rightarrow> string list" where
  "resolved_columns s r =
     (let schema = upper (case fst r of
                            None \<Rightarrow> dbname s
                          | Some a \<Rightarrow> if a = [] then dbname s else a);
          name = fst (snd r)
      in case lookup_relation (meta_tables s) schema name of
           Some cols \<Rightarrow> cols
         | None \<Rightarrow>
             (case lookup_relation (meta_tables s) schema (escape_name name) of
                Some cols \<Rightarrow> cols
              | None \<Rightarrow>
                  (case lookup_relation (meta_views s) schema name of
                     Some cols \<Rightarrow> cols
                   | None \<Rightarrow> [])))"

text \<open>\<open>ranked_before a b xs\<close>: \<open>b\<close> is in \<open>xs\<close> and \<open>a\<close> stands before its first occurrence.\<close>

definition ranked_before :: "'a \<Rightarrow> 'a \<Rightarrow> 'a list \<Rightarrow> bool" where
  "ranked_before a b xs \<longleftrightarrow> b \<in> set xs \<and> a \<in> set (takeWhile (\<lambda>x. x \<noteq> b) xs)"

text \<open>
  The key that \<^verbatim>\<open>find_matches\<close> sorts by: the triple of one item, by the mode.
\<close>

definition match_key :: "string \<Rightarrow> bool \<Rightarrow> bool \<Rightarrow> string \<Rightarrow> (nat \<times> nat \<times> string) option" where
  "match_key text start_only fuzzy item =
     (if fuzzy then fuzzy_entry text item
      else find_entry text (if start_only then Some (length text) else None) item)"

text \<open>
  The order of Python's tuples \<^verbatim>\<open>(len, start, item)\<close>, written out: by the length of the
  match, then by its start, then by the text of the item.
\<close>

definition key_le :: "nat \<times> nat \<times> string \<Rightarrow> nat \<times> nat \<times> string \<Rightarrow> bool" where
  "key_le a b =
     (case a of (n1, s1, z1) \<Rightarrow> case b of (n2, s2, z2) \<Rightarrow>
        n1 < n2 \<or> (n1 = n2 \<and> (s1 < s2 \<or> (s1 = s2 \<and> z1 \<le> z2))))"

text \<open>The invariant of the schema keys: each is its own uppercase form.\<close>

definition keys_upper :: "completer \<Rightarrow> bool" where
  "keys_upper s \<longleftrightarrow> (\<forall>k\<in>set (schema_keys s). upper k = k)"

text \<open>
  The object names a call hands over: the first component of every row of
  \<^verbatim>\<open>extend_relations\<close> and \<^verbatim>\<open>extend_functions\<close>, as the generator yields it.
\<close>

definition supplied_names :: "catalog_op \<Rightarrow> string set" where
  "supplied_names op =
     (case op of
        Extend_relations data k schema \<Rightarrow>
          (case consume data of None \<Rightarrow> {} | Some rows \<Rightarrow> hd ` {row \<in> set rows. row \<noteq> []})
      | Extend_functions data schema \<Rightarrow>
          (case consume data of None \<Rightarrow> {} | Some rows \<Rightarrow> hd ` {row \<in> set rows. row \<noteq> []})
      | _ \<Rightarrow> {})"

text \<open>The object names under all schemas of one dictionary of \<^verbatim>\<open>dbmetadata\<close>.\<close>

definition names_of :: "'v dict dict \<Rightarrow> string set" where
  "names_of m = (\<Union>p\<in>set m. set (dict_keys (snd p)))"

section \<open>Properties\<close>

subsection \<open>The matcher\<close>

lemma length_lower: "length (lower s) = length s"
  by (simp add: lower_def)

lemma lazy_gaps_subseq: "lazy_gaps cs s = Some n \<Longrightarrow> subseq cs s"
proof (induction cs s arbitrary: n rule: lazy_gaps.induct)
  case (1 s)
  then show ?case by simp
next
  case (2 c cs)
  then show ?case by simp
next
  case (3 c cs x xs)
  show ?case
  proof (cases "(if x = c then lazy_gaps cs xs else None)")
    case (Some m)
    then have "x = c" and "lazy_gaps cs xs = Some m"
      by (auto split: if_splits)
    with 3(1) have "subseq cs xs" by simp
    with \<open>x = c\<close> show ?thesis by simp
  next
    case None
    with 3(3) have nl: "x \<noteq> line_feed" and "map_option Suc (lazy_gaps (c # cs) xs) = Some n"
      by (auto split: if_splits)
    then obtain m where "lazy_gaps (c # cs) xs = Some m" by auto
    with 3(2)[OF None nl] have "subseq (c # cs) xs" by simp
    then show ?thesis
      by (rule list_emb_Cons)
  qed
qed

lemma match_at_subseq: "match_at pat s = Some n \<Longrightarrow> subseq pat s"
  by (induction pat s rule: match_at.induct) (auto split: if_splits dest: lazy_gaps_subseq)

lemma re_search_subseq: "re_search pat s = Some r \<Longrightarrow> subseq pat s"
proof (induction s arbitrary: r)
  case Nil
  then show ?case by (auto dest: match_at_subseq)
next
  case (Cons x xs)
  then show ?case
    by (auto split: option.splits dest: match_at_subseq)
qed

lemma find_from_prefix: "find_from sub t = Some p \<Longrightarrow> p \<le> length t \<and> prefix sub (drop p t)"
  by (induction t arbitrary: p) (auto split: if_splits)

lemma find_from_start:
  assumes "find_from sub (take (length sub) s) = Some p"
  shows "p = 0 \<and> prefix sub s"
proof -
  from find_from_prefix[OF assms]
  have le: "p \<le> length (take (length sub) s)" and pre: "prefix sub (drop p (take (length sub) s))"
    by auto
  from pre have "length sub \<le> length (drop p (take (length sub) s))"
    by (rule prefix_length_le)
  with le have p0: "p = 0" by (cases "p = 0") auto
  with pre have "prefix sub (take (length sub) s)" by simp
  then have "prefix sub s"
    by (meson prefix_order.trans take_is_prefix)
  with p0 show ?thesis by simp
qed

lemma find_from_hit: "prefix sub t \<Longrightarrow> find_from sub t = Some 0"
  by (cases t) auto

lemma set_map_filter: "set (List.map_filter f xs) = {y. \<exists>x\<in>set xs. f x = Some y}"
  by (induction xs) (auto simp: List.map_filter_simps split: option.splits)

lemma scored_matches_set:
  "set (scored_matches lw t c so fz) =
     {e. \<exists>item\<in>set c. match_key (lower (lw t)) so fz item = Some e}"
  by (auto simp: scored_matches_def match_key_def Let_def set_map_filter)

lemma match_key_item: "match_key text so fz item = Some e \<Longrightarrow> snd (snd e) = item"
  by (auto simp: match_key_def fuzzy_entry_def find_entry_def split: if_splits option.splits)

lemma find_matches_set:
  "set (find_matches lw t c so fz) =
     {Completion item (- int (length (lw t))) | item.
        item \<in> set c \<and> match_key (lower (lw t)) so fz item \<noteq> None}"
  (is "?L = ?R")
proof
  show "?L \<subseteq> ?R"
  proof
    fix x assume "x \<in> ?L"
    then obtain e where e: "e \<in> set (scored_matches lw t c so fz)"
      and x: "x = (case e of (a, b, z) \<Rightarrow> Completion z (- int (length (lw t))))"
      by (auto simp: find_matches_def Let_def length_lower)
    from e obtain item where i: "item \<in> set c" "match_key (lower (lw t)) so fz item = Some e"
      by (auto simp: scored_matches_set)
    from match_key_item[OF i(2)] x have "x = Completion item (- int (length (lw t)))"
      by (cases e) (simp add: case_prod_beta)
    with i show "x \<in> ?R" by blast
  qed
  show "?R \<subseteq> ?L"
  proof
    fix x assume "x \<in> ?R"
    then obtain item e where i: "item \<in> set c" "match_key (lower (lw t)) so fz item = Some e"
      and x: "x = Completion item (- int (length (lw t)))"
      by auto
    from i have e: "e \<in> set (scored_matches lw t c so fz)"
      by (auto simp: scored_matches_set)
    from match_key_item[OF i(2)] x
    have "x = (case e of (a, b, z) \<Rightarrow> Completion z (- int (length (lw t))))"
      by (cases e) (simp add: case_prod_beta)
    with e show "x \<in> ?L"
      by (auto simp: find_matches_def Let_def length_lower)
  qed
qed

lemma sort_mset_cong: "mset xs = mset ys \<Longrightarrow> sort xs = sort (ys :: 'a::linorder list)"
  by (metis mset_sort properties_for_sort sorted_sort)

lemma key_le_iff: "key_le a b \<longleftrightarrow> a \<le> b"
  by (cases a; cases b) (auto simp: key_le_def less_eq_prod_def less_prod_def)

lemma sorted_wrt_key_le: "sorted_wrt key_le xs \<longleftrightarrow> sorted xs"
proof -
  have "key_le = (\<le>)" by (intro ext) (simp add: key_le_iff)
  then show ?thesis by simp
qed

lemma scored_matches_sorted: "sorted (scored_matches lw t c so fz)"
  by (simp add: scored_matches_def Let_def)

lemma scored_matches_cong:
  "mset c' = mset c \<Longrightarrow> scored_matches lw t c' so fz = scored_matches lw t c so fz"
  by (simp add: scored_matches_def Let_def sort_mset_cong[of c' c])

lemma find_matches_cong:
  "mset c' = mset c \<Longrightarrow> find_matches lw t c' so fz = find_matches lw t c so fz"
  using scored_matches_cong[of c' c lw t so fz] by (simp add: find_matches_def)

lemma find_matches_texts:
  "map completion_text (find_matches lw t c so fz) = map (snd \<circ> snd) (scored_matches lw t c so fz)"
  by (simp add: find_matches_def Let_def case_prod_beta comp_def)

lemma match_key_prefix:
  "match_key text True False item \<noteq> None \<longleftrightarrow> prefix text (lower item)"
proof
  assume "match_key text True False item \<noteq> None"
  then obtain p where "find_from text (take (length text) (lower item)) = Some p"
    by (auto simp: match_key_def find_entry_def str_find_def split: option.splits)
  from find_from_start[OF this] show "prefix text (lower item)" by simp
next
  assume "prefix text (lower item)"
  then have "prefix text (take (length text) (lower item))"
    by (auto simp: prefix_def)
  from find_from_hit[OF this] show "match_key text True False item \<noteq> None"
    by (simp add: match_key_def find_entry_def str_find_def)
qed

lemma match_key_fuzzy:
  "match_key text so True item \<noteq> None \<Longrightarrow> subseq text (lower item)"
  by (auto simp: match_key_def fuzzy_entry_def split: option.splits dest: re_search_subseq)

text \<open>
  Claim C3. Soundness of \<^verbatim>\<open>find_matches\<close>. With \<^verbatim>\<open>fuzzy=False\<close> and
  \<^verbatim>\<open>start_only=True\<close> every completion returned is an item of the collection whose
  lowercased text begins with the token, the lowercased last word of the input. With
  \<^verbatim>\<open>fuzzy=True\<close> every completion returned is an item of the collection whose
  lowercased text has the characters of the token as a subsequence, and an item
  without that subsequence is not returned.
\<close>

theorem find_matches_sound:
  "(\<forall>c\<in>set (find_matches lw t coll True False).
      completion_text c \<in> set coll \<and> prefix (lower (lw t)) (lower (completion_text c)))
   \<and> (\<forall>c\<in>set (find_matches lw t coll so True).
      completion_text c \<in> set coll \<and> subseq (lower (lw t)) (lower (completion_text c)))
   \<and> (\<forall>item. \<not> subseq (lower (lw t)) (lower item) \<longrightarrow>
        item \<notin> completion_text ` set (find_matches lw t coll so True))"
proof (intro conjI ballI allI impI)
  fix c assume "c \<in> set (find_matches lw t coll True False)"
  then obtain item where "item \<in> set coll" "match_key (lower (lw t)) True False item \<noteq> None"
    and "c = Completion item (- int (length (lw t)))"
    unfolding find_matches_set by blast
  then show "completion_text c \<in> set coll" "prefix (lower (lw t)) (lower (completion_text c))"
    using match_key_prefix[of "lower (lw t)" item] by simp_all
next
  fix c assume "c \<in> set (find_matches lw t coll so True)"
  then obtain item where "item \<in> set coll" "match_key (lower (lw t)) so True item \<noteq> None"
    and "c = Completion item (- int (length (lw t)))"
    unfolding find_matches_set by blast
  then show "completion_text c \<in> set coll" "subseq (lower (lw t)) (lower (completion_text c))"
    using match_key_fuzzy[of "lower (lw t)" so item] by simp_all
next
  fix item assume no: "\<not> subseq (lower (lw t)) (lower item)"
  show "item \<notin> completion_text ` set (find_matches lw t coll so True)"
  proof
    assume "item \<in> completion_text ` set (find_matches lw t coll so True)"
    then obtain c where c: "c \<in> set (find_matches lw t coll so True)" "completion_text c = item"
      by auto
    then obtain item' where "match_key (lower (lw t)) so True item' \<noteq> None"
      and "c = Completion item' (- int (length (lw t)))"
      unfolding find_matches_set by blast
    with c have "subseq (lower (lw t)) (lower item)"
      using match_key_fuzzy[of "lower (lw t)" so item'] by simp
    with no show False by simp
  qed
qed

theorem find_matches_sound_witness:
  "find_matches last_word ''select fir'' [''LAST_NAME'', ''FIRST_NAME'', ''File'', ''SALARY''] True False
     = [Completion ''FIRST_NAME'' (- 3)]
   \<and> prefix (lower (last_word ''select fir'')) (lower ''FIRST_NAME'')
   \<and> find_matches last_word ''fn'' [''LAST_NAME'', ''FIRST_NAME'', ''File'', ''SALARY''] False True
     = [Completion ''FIRST_NAME'' (- 2)]
   \<and> subseq (lower (last_word ''fn'')) (lower ''FIRST_NAME'')
   \<and> \<not> subseq (lower (last_word ''fn'')) (lower ''File'')
   \<and> ''File'' \<notin> completion_text ` set (find_matches last_word ''fn''
         [''LAST_NAME'', ''FIRST_NAME'', ''File'', ''SALARY''] False True)"
proof -
  let ?coll = "[''LAST_NAME'', ''FIRST_NAME'', ''File'', ''SALARY'']"
  have a: "find_matches last_word ''select fir'' ?coll True False = [Completion ''FIRST_NAME'' (- 3)]"
    by code_simp
  have b: "find_matches last_word ''fn'' ?coll False True = [Completion ''FIRST_NAME'' (- 2)]"
    by code_simp
  have n: "\<not> subseq (lower (last_word ''fn'')) (lower ''File'')"
    by code_simp
  note s1 = find_matches_sound[of last_word "''select fir''" ?coll False]
  note s = find_matches_sound[of last_word "''fn''" ?coll False]
  from s1 a have p: "prefix (lower (last_word ''select fir'')) (lower ''FIRST_NAME'')"
    by simp
  from s b have q: "subseq (lower (last_word ''fn'')) (lower ''FIRST_NAME'')"
    by simp
  from s n have r: "''File'' \<notin> completion_text ` set (find_matches last_word ''fn'' ?coll False True)"
    by blast
  from a b n p q r show ?thesis by blast
qed

text \<open>
  Claim C4. The order of the output of \<^verbatim>\<open>find_matches\<close>. The triples behind the output
  are sorted ascending by the length of the match, then its start, then the text of the
  item; each triple is the key of its own item, an item of the collection; the output
  lists the items of the triples in that order; and the output depends on the
  collection only through its elements and their multiplicities, not on the order in
  which the collection enumerates them, so that any two calls with the same token,
  candidates and flags return the same sequence.
\<close>

theorem find_matches_order:
  "sorted_wrt key_le (scored_matches lw t c so fz)
   \<and> (\<forall>e\<in>set (scored_matches lw t c so fz).
         snd (snd e) \<in> set c \<and> match_key (lower (lw t)) so fz (snd (snd e)) = Some e)
   \<and> map completion_text (find_matches lw t c so fz) = map (snd \<circ> snd) (scored_matches lw t c so fz)
   \<and> (mset c' = mset c \<longrightarrow> find_matches lw t c' so fz = find_matches lw t c so fz)"
proof (intro conjI ballI impI)
  show "sorted_wrt key_le (scored_matches lw t c so fz)"
    by (simp add: sorted_wrt_key_le scored_matches_sorted)
next
  fix e assume "e \<in> set (scored_matches lw t c so fz)"
  then obtain item where i: "item \<in> set c" "match_key (lower (lw t)) so fz item = Some e"
    by (auto simp: scored_matches_set)
  from match_key_item[OF i(2)] i
  show "snd (snd e) \<in> set c" "match_key (lower (lw t)) so fz (snd (snd e)) = Some e"
    by simp_all
next
  show "map completion_text (find_matches lw t c so fz) = map (snd \<circ> snd) (scored_matches lw t c so fz)"
    by (rule find_matches_texts)
next
  assume "mset c' = mset c"
  then show "find_matches lw t c' so fz = find_matches lw t c so fz"
    by (rule find_matches_cong)
qed

theorem find_matches_order_witness:
  "scored_matches last_word ''x ab'' [''xaxb'', ''CAB'', ''AB'', ''zz'', ''ab''] False True
     = [(2, 0, ''AB''), (2, 0, ''ab''), (2, 1, ''CAB''), (3, 1, ''xaxb'')]
   \<and> match_key (lower (last_word ''x ab'')) False True ''CAB'' = Some (2, 1, ''CAB'')
   \<and> find_matches last_word ''x ab'' [''ab'', ''zz'', ''xaxb'', ''AB'', ''CAB''] False True
     = find_matches last_word ''x ab'' [''xaxb'', ''CAB'', ''AB'', ''zz'', ''ab''] False True
   \<and> find_matches last_word ''x ab'' [''xaxb'', ''CAB'', ''AB'', ''zz'', ''ab''] False True
     = [Completion ''AB'' (- 2), Completion ''ab'' (- 2), Completion ''CAB'' (- 2),
        Completion ''xaxb'' (- 2)]"
proof -
  let ?c = "[''xaxb'', ''CAB'', ''AB'', ''zz'', ''ab'']"
  let ?c' = "[''ab'', ''zz'', ''xaxb'', ''AB'', ''CAB'']"
  have a: "scored_matches last_word ''x ab'' ?c False True
     = [(2, 0, ''AB''), (2, 0, ''ab''), (2, 1, ''CAB''), (3, 1, ''xaxb'')]"
    by code_simp
  have m: "mset ?c' = mset ?c" by simp
  have f: "find_matches last_word ''x ab'' ?c False True
     = [Completion ''AB'' (- 2), Completion ''ab'' (- 2), Completion ''CAB'' (- 2),
        Completion ''xaxb'' (- 2)]"
    by code_simp
  note o = find_matches_order[of last_word "''x ab''" ?c False True ?c']
  from o a have k: "match_key (lower (last_word ''x ab'')) False True ''CAB'' = Some (2, 1, ''CAB'')"
    by simp
  from o m have e: "find_matches last_word ''x ab'' ?c' False True
     = find_matches last_word ''x ab'' ?c False True"
    by blast
  from a k e f show ?thesis by blast
qed

lemma find_matches_offset:
  "c \<in> set (find_matches lw t coll so fz) \<Longrightarrow> start_position c = - int (length (lower (lw t)))"
  by (auto simp: find_matches_set length_lower)

lemma find_matches_prefix_hit:
  "item \<in> set coll \<Longrightarrow> prefix (lower (lw t)) (lower item) \<Longrightarrow>
     Completion item (- int (length (lw t))) \<in> set (find_matches lw t coll True False)"
  using match_key_prefix[of "lower (lw t)" item] by (auto simp: find_matches_set)

text \<open>
  Claim C5. Every completion that \<^verbatim>\<open>find_matches\<close> returns has the start position
  \<^verbatim>\<open>-len(text)\<close>, where \<open>text\<close> is the lowercased last word of the input. In particular,
  when the word before the cursor is \<^verbatim>\<open>sel\<close> (its own last word) and the keywords
  contain \<^verbatim>\<open>SELECT\<close>, the keyword suggestion returns the prefix matches among the
  keywords, and \<^verbatim>\<open>SELECT\<close> with start position \<open>-3\<close> is one of them.
\<close>

theorem find_matches_offset_keyword:
  "(\<forall>c\<in>set (find_matches lw t coll so fz). start_position c = - int (length (lower (lw t))))
   \<and> (lw ''sel'' = ''sel'' \<and> ''SELECT'' \<in> set (keywords_list s) \<longrightarrow>
        get_completions lw fav s ''sel'' [Keyword_sg] (Some True)
          = Inr (find_matches lw ''sel'' (keywords_list s) True False)
        \<and> Completion ''SELECT'' (- 3) \<in> set (find_matches lw ''sel'' (keywords_list s) True False))"
proof (intro conjI ballI impI)
  fix c assume "c \<in> set (find_matches lw t coll so fz)"
  then show "start_position c = - int (length (lower (lw t)))"
    by (rule find_matches_offset)
next
  show "get_completions lw fav s ''sel'' [Keyword_sg] (Some True)
          = Inr (find_matches lw ''sel'' (keywords_list s) True False)"
    by (simp add: get_completions_def)
next
  assume a: "lw ''sel'' = ''sel'' \<and> ''SELECT'' \<in> set (keywords_list s)"
  have "prefix (lower ''sel'') (lower ''SELECT'')" by code_simp
  with a have "prefix (lower (lw ''sel'')) (lower ''SELECT'')" by simp
  with a have "Completion ''SELECT'' (- int (length (lw ''sel'')))
      \<in> set (find_matches lw ''sel'' (keywords_list s) True False)"
    by (intro find_matches_prefix_hit) simp_all
  with a show "Completion ''SELECT'' (- 3) \<in> set (find_matches lw ''sel'' (keywords_list s) True False)"
    by simp
qed

theorem find_matches_offset_keyword_witness:
  "find_matches last_word ''from sel'' [''SELECT'', ''FROM'', ''SET''] False True
     = [Completion ''SELECT'' (- 3)]
   \<and> - int (length (lower (last_word ''from sel''))) = - 3
   \<and> last_word ''sel'' = ''sel''
   \<and> keywords_list (new_completer True [] [''FROM'', ''SELECT'', ''SET'']) = [''FROM'', ''SELECT'', ''SET'']
   \<and> get_completions last_word [] (new_completer True [] [''FROM'', ''SELECT'', ''SET'']) ''sel''
        [Keyword_sg] (Some True) = Inr [Completion ''SELECT'' (- 3)]"
proof -
  let ?s = "new_completer True [] [''FROM'', ''SELECT'', ''SET'']"
  have a: "find_matches last_word ''from sel'' [''SELECT'', ''FROM'', ''SET''] False True
     = [Completion ''SELECT'' (- 3)]"
    by code_simp
  have l: "last_word ''sel'' = ''sel''" by code_simp
  have k: "keywords_list ?s = [''FROM'', ''SELECT'', ''SET'']"
    by (simp add: new_completer_def reset_completions_def)
  have f: "find_matches last_word ''sel'' [''FROM'', ''SELECT'', ''SET''] True False
     = [Completion ''SELECT'' (- 3)]"
    by code_simp
  note o = find_matches_offset_keyword[of last_word "''from sel''" "[''SELECT'', ''FROM'', ''SET'']"
      False True ?s "[]"]
  from o a have b: "- int (length (lower (last_word ''from sel''))) = - 3"
    by simp
  from o l k f have g: "get_completions last_word [] ?s ''sel'' [Keyword_sg] (Some True)
      = Inr [Completion ''SELECT'' (- 3)]"
    by simp
  from a b l k g show ?thesis by blast
qed

subsection \<open>The prefix mode in closed form, and the built-in functions\<close>

lemma find_entry_start_only:
  "find_entry text (Some (length text)) item =
     (if prefix text (lower item) then Some (length text, 0, item) else None)"
proof (cases "find_from text (take (length text) (lower item))")
  case None
  have "\<not> prefix text (lower item)"
  proof
    assume "prefix text (lower item)"
    then have "prefix text (take (length text) (lower item))"
      by (auto simp: prefix_def)
    from find_from_hit[OF this] None show False by simp
  qed
  with None show ?thesis by (simp add: find_entry_def str_find_def)
next
  case (Some p)
  from find_from_start[OF Some] Some show ?thesis
    by (simp add: find_entry_def str_find_def)
qed

lemma map_filter_if:
  "List.map_filter (\<lambda>x. if P x then Some (g x) else None) xs = map g (filter P xs)"
  by (induction xs) (simp_all add: List.map_filter_simps)

lemma sorted_tagged: "sorted xs \<Longrightarrow> sorted (map (\<lambda>z. (n, m, z)) (xs :: string list))"
  for n m :: nat
  by (induction xs) (auto simp: less_eq_prod_def)

lemma scored_matches_start_only:
  "scored_matches lw t coll True False =
     map (\<lambda>z. (length (lw t), 0, z)) (sort (filter (\<lambda>item. prefix (lower (lw t)) (lower item)) coll))"
proof -
  let ?P = "\<lambda>item. prefix (lower (lw t)) (lower item)"
  let ?g = "\<lambda>z. (length (lw t), 0::nat, z)"
  have "find_entry (lower (lw t)) (Some (length (lower (lw t)))) =
      (\<lambda>item. if ?P item then Some (?g item) else None)"
    using find_entry_start_only[of "lower (lw t)"] by (intro ext) (simp add: length_lower)
  then have "scored_matches lw t coll True False = sort (map ?g (filter ?P (sort coll)))"
    by (simp add: scored_matches_def map_filter_if del: length_map)
  also have "filter ?P (sort coll) = sort (filter ?P coll)"
    by (simp add: filter_sort)
  also have "sort (map ?g (sort (filter ?P coll))) = map ?g (sort (filter ?P coll))"
    by (intro sorted_sort_id sorted_tagged) simp
  finally show ?thesis .
qed

lemma find_matches_start_only:
  "find_matches lw t coll True False =
     map (\<lambda>z. Completion z (- int (length (lw t))))
       (sort (filter (\<lambda>item. prefix (lower (lw t)) (lower item)) coll))"
  by (simp add: find_matches_def scored_matches_start_only length_lower comp_def)

lemma functions_list_filter:
  "sort (filter P functions_list) =
     sort (remdups (filter P (str_functions @ num_functions @ date_functions @ conv_functions
                    @ analytic_functions @ advanced_fuctions)))"
  unfolding functions_list_def
  by (simp only: filter_sort remdups_filter sort_key_id_if_sorted sorted_sort sorted_sort_id)

lemma su_candidates:
  "filter (\<lambda>item. prefix ''su'' (lower item))
     (str_functions @ num_functions @ date_functions @ conv_functions
        @ analytic_functions @ advanced_fuctions) = [''SUBSTR'', ''SUM'']"
  by code_simp

lemmas catalog_eval =
  run_ops_def new_completer_def reset_completions_def extend_schemata_def
  u_extend_schemata_def set_dbname_def extend_relations_def extend_columns_def
  extend_functions_def escaped_names_def escape_name_def getitem_def setitem_def
  dict_keys_def upper_def char_upper_def Let_def

lemma builtin_su:
  assumes "lw ''su'' = ''su''"
  shows "find_matches lw ''su'' functions_list True False
           = [Completion ''SUBSTR'' (- 2), Completion ''SUM'' (- 2)]"
    and "scored_matches lw ''su'' functions_list True False
           = [(2, 0, ''SUBSTR''), (2, 0, ''SUM'')]"
proof -
  have l: "lower ''su'' = ''su''" by code_simp
  have "sort (filter (\<lambda>item. prefix ''su'' (lower item)) functions_list)
      = sort (remdups [''SUBSTR'', ''SUM''])"
    by (simp only: functions_list_filter su_candidates)
  also have "\<dots> = [''SUBSTR'', ''SUM'']" by code_simp
  finally have c: "sort (filter (\<lambda>item. prefix ''su'' (lower item)) functions_list)
      = [''SUBSTR'', ''SUM'']" .
  show "find_matches lw ''su'' functions_list True False
           = [Completion ''SUBSTR'' (- 2), Completion ''SUM'' (- 2)]"
    by (simp add: find_matches_start_only assms l c)
  show "scored_matches lw ''su'' functions_list True False
           = [(2, 0, ''SUBSTR''), (2, 0, ''SUM'')]"
    by (simp add: scored_matches_start_only assms l c)
qed

lemma populate_schema_objects_value:
  "populate_schema_objects s schema ot =
     Inr (case ot of
            Relations k \<Rightarrow>
              (case map_of (get_meta s k) (upper (py_or schema (dbname s))) of
                 None \<Rightarrow> [] | Some objects \<Rightarrow> dict_keys objects)
          | Functions \<Rightarrow>
              (case map_of (meta_functions s) (upper (py_or schema (dbname s))) of
                 None \<Rightarrow> [] | Some objects \<Rightarrow> dict_keys objects))"
  by (simp add: populate_schema_objects_def keys_or_empty_def getitem_def
      split: obj_type.splits option.splits)

lemma function_branch_su:
  assumes "lw ''su'' = ''su''"
  shows "suggestion_completions lw fav s ''su'' (Function_sg None)
           = Inr (find_matches lw ''su''
                    (case map_of (meta_functions s) (upper (dbname s)) of
                       None \<Rightarrow> [] | Some objects \<Rightarrow> dict_keys objects) False True
                  @ [Completion ''SUBSTR'' (- 2), Completion ''SUM'' (- 2)])"
  using builtin_su(1)[of lw] assms
  by (simp add: populate_schema_objects_value py_or_def)

lemma find_matches_Nil: "find_matches lw t [] so fz = []"
  by (simp add: find_matches_def scored_matches_def Let_def List.map_filter_simps)

text \<open>
  Claim C10, as amended. The function suggestion with no schema qualifier and the word
  \<^verbatim>\<open>su\<close> (its own last word) returns the fuzzy matches among the user-defined
  functions of the current database, followed by the prefix matches among the built-in
  functions, which are exactly \<^verbatim>\<open>SUBSTR\<close> and \<^verbatim>\<open>SUM\<close>. Both have the key
  \<open>(2, 0)\<close> of the length and the start of the match, so the text of the candidate
  decides, and \<^verbatim>\<open>SUBSTR\<close> is ranked before \<^verbatim>\<open>SUM\<close>.
\<close>

theorem function_suggestion_su:
  assumes "lw ''su'' = ''su''"
  shows "get_completions lw fav s ''su'' [Function_sg None] (Some True)
           = Inr (find_matches lw ''su''
                    (case map_of (meta_functions s) (upper (dbname s)) of
                       None \<Rightarrow> [] | Some objects \<Rightarrow> dict_keys objects) False True
                  @ [Completion ''SUBSTR'' (- 2), Completion ''SUM'' (- 2)])
         \<and> scored_matches lw ''su'' functions_list True False
             = [(2, 0, ''SUBSTR''), (2, 0, ''SUM'')]
         \<and> ''SUBSTR'' < ''SUM''"
proof -
  have d: "''SUBSTR'' < ''SUM''" by code_simp
  have "get_completions lw fav s ''su'' [Function_sg None] (Some True)
           = Inr (find_matches lw ''su''
                    (case map_of (meta_functions s) (upper (dbname s)) of
                       None \<Rightarrow> [] | Some objects \<Rightarrow> dict_keys objects) False True
                  @ [Completion ''SUBSTR'' (- 2), Completion ''SUM'' (- 2)])"
    using function_branch_su[of lw fav s] assms by (simp add: get_completions_def)
  with builtin_su(2)[of lw] assms d show ?thesis by simp
qed

theorem function_suggestion_su_witness:
  "last_word ''su'' = ''su''
   \<and> get_completions last_word []
        (run_ops (new_completer True [] [])
           [Extend_schemata [''hr''], Set_dbname ''hr'',
            Extend_functions (Yield [''SUPPLIERS_OF''] (Yield [''NET_PAY''] Done)) ''HR''])
        ''su'' [Function_sg None] (Some True)
       = Inr [Completion ''SUPPLIERS_OF'' (- 2), Completion ''SUBSTR'' (- 2), Completion ''SUM'' (- 2)]"
proof -
  let ?s = "run_ops (new_completer True [] [])
           [Extend_schemata [''hr''], Set_dbname ''hr'',
            Extend_functions (Yield [''SUPPLIERS_OF''] (Yield [''NET_PAY''] Done)) ''HR'']"
  have l: "last_word ''su'' = ''su''" by code_simp
  have m: "(case map_of (meta_functions ?s) (upper (dbname ?s)) of
              None \<Rightarrow> [] | Some objects \<Rightarrow> dict_keys objects) = [''SUPPLIERS_OF'', ''NET_PAY'']"
    by (simp add: catalog_eval)
  have f: "find_matches last_word ''su'' [''SUPPLIERS_OF'', ''NET_PAY''] False True
      = [Completion ''SUPPLIERS_OF'' (- 2)]"
    by code_simp
  from function_suggestion_su[of last_word "[]" ?s] l m f
  have "get_completions last_word [] ?s ''su'' [Function_sg None] (Some True)
       = Inr [Completion ''SUPPLIERS_OF'' (- 2), Completion ''SUBSTR'' (- 2), Completion ''SUM'' (- 2)]"
    by simp
  with l show ?thesis by blast
qed

text \<open>
  The claim C10 as it stands fails: on a new completer the suggestion returns
  \<^verbatim>\<open>SUBSTR\<close> first and \<^verbatim>\<open>SUM\<close> second.
\<close>

theorem function_suggestion_su_counterexample:
  "get_completions last_word [] (new_completer True [] []) ''su'' [Function_sg None] None
     = Inr [Completion ''SUBSTR'' (- 2), Completion ''SUM'' (- 2)]
   \<and> \<not> ranked_before (Completion ''SUM'' (- 2)) (Completion ''SUBSTR'' (- 2))
         [Completion ''SUBSTR'' (- 2), Completion ''SUM'' (- 2)]"
proof -
  have l: "last_word ''su'' = ''su''" by code_simp
  have m: "meta_functions (new_completer True [] []) = []"
    and sm: "smart_completion (new_completer True [] [])"
    by (simp_all add: new_completer_def reset_completions_def)
  have "get_completions last_word [] (new_completer True [] []) ''su'' [Function_sg None] None
     = Inr [Completion ''SUBSTR'' (- 2), Completion ''SUM'' (- 2)]"
    using function_branch_su[of last_word "[]" "new_completer True [] []"] l
    by (simp add: get_completions_def sm m find_matches_Nil)
  moreover have "\<not> ranked_before (Completion ''SUM'' (- 2)) (Completion ''SUBSTR'' (- 2))
         [Completion ''SUBSTR'' (- 2), Completion ''SUM'' (- 2)]"
    by (simp add: ranked_before_def)
  ultimately show ?thesis by simp
qed

subsection \<open>The scope resolver\<close>

lemma getitem2_lookup:
  "getitem2 m schema name =
     (case lookup_relation m schema name of None \<Rightarrow> Inl KeyError | Some v \<Rightarrow> Inr v)"
  by (simp add: getitem2_def getitem_def lookup_relation_def split: option.splits)

lemma py_or_cases:
  "py_or a d = (case a of None \<Rightarrow> d | Some b \<Rightarrow> if b = [] then d else b)"
  by (cases a) (simp_all add: py_or_def)

lemma populate_scoped_cols_loop_value:
  "populate_scoped_cols_loop s refs columns = Inr (columns @ concat (map (resolved_columns s) refs))"
proof (induction refs arbitrary: columns)
  case Nil
  then show ?case by simp
next
  case (Cons r refs)
  show ?case
    by (simp add: Cons.IH getitem2_lookup resolved_columns_def py_or_cases Let_def
        split: option.splits)
qed

lemma populate_scoped_cols_value:
  "populate_scoped_cols s refs = Inr (concat (map (resolved_columns s) refs))"
  by (simp add: populate_scoped_cols_def populate_scoped_cols_loop_value)

text \<open>
  Claim C1. \<^verbatim>\<open>populate_scoped_cols\<close> never raises and returns, for every list of table
  references, the concatenation in reference order (duplicates kept) of what each
  reference resolves to: its schema is the explicit one or else the current database,
  uppercased; the relation is looked up under the tables of that schema, then under
  its escaped name, then under the views; a reference found in neither contributes no
  columns. In particular, a reference to a relation \<open>R\<close> of a schema \<open>S\<close> (named
  explicitly and not empty, or the current database when the reference names none)
  whose stored column list is \<open>cols\<close> resolves to exactly \<open>cols\<close>: the table's list, or
  the view's when there is no table of that name.
\<close>

theorem populate_scoped_cols_resolves:
  "populate_scoped_cols s refs = Inr (concat (map (resolved_columns s) refs))
   \<and> (S \<noteq> [] \<and> lookup_relation (meta_tables s) (upper S) R = Some cols \<longrightarrow>
        populate_scoped_cols s [(Some S, R, alias)] = Inr cols)
   \<and> (S \<noteq> [] \<and> lookup_relation (meta_tables s) (upper S) R = None
        \<and> lookup_relation (meta_views s) (upper S) R = Some cols \<longrightarrow>
        populate_scoped_cols s [(Some S, R, alias)] = Inr cols)
   \<and> (S \<noteq> [] \<and> lookup_relation (meta_tables s) (upper S) R = None
        \<and> lookup_relation (meta_views s) (upper S) R = None \<longrightarrow>
        populate_scoped_cols s [(Some S, R, alias)] = Inr [])
   \<and> (lookup_relation (meta_tables s) (upper (dbname s)) R = Some cols \<longrightarrow>
        populate_scoped_cols s [(None, R, alias)] = Inr cols)"
  by (simp add: populate_scoped_cols_value resolved_columns_def escape_name_def)

theorem populate_scoped_cols_resolves_witness:
  "populate_scoped_cols
     (run_ops (new_completer True [] [])
        [Extend_schemata [''hr''], Set_dbname ''hr'',
         Extend_relations (Yield [''EMPLOYEES''] Done) Tables ''hr'',
         Extend_columns (Yield [''EMPLOYEES'', ''EMPLOYEE_ID'']
                          (Yield [''EMPLOYEES'', ''FIRST_NAME''] Done)) Tables ''hr'',
         Extend_relations (Yield [''EMP_V''] Done) Views ''hr''])
     [(Some ''hr'', ''EMPLOYEES'', None)] = Inr [''*'', ''EMPLOYEE_ID'', ''FIRST_NAME'']
   \<and> populate_scoped_cols
     (run_ops (new_completer True [] [])
        [Extend_schemata [''hr''], Set_dbname ''hr'',
         Extend_relations (Yield [''EMPLOYEES''] Done) Tables ''hr'',
         Extend_columns (Yield [''EMPLOYEES'', ''EMPLOYEE_ID'']
                          (Yield [''EMPLOYEES'', ''FIRST_NAME''] Done)) Tables ''hr'',
         Extend_relations (Yield [''EMP_V''] Done) Views ''hr''])
     [(Some ''hr'', ''EMP_V'', None)] = Inr [''*'']
   \<and> populate_scoped_cols
     (run_ops (new_completer True [] [])
        [Extend_schemata [''hr''], Set_dbname ''hr'',
         Extend_relations (Yield [''EMPLOYEES''] Done) Tables ''hr'',
         Extend_columns (Yield [''EMPLOYEES'', ''EMPLOYEE_ID'']
                          (Yield [''EMPLOYEES'', ''FIRST_NAME''] Done)) Tables ''hr'',
         Extend_relations (Yield [''EMP_V''] Done) Views ''hr''])
     [(Some ''hr'', ''NOPE'', None)] = Inr []
   \<and> populate_scoped_cols
     (run_ops (new_completer True [] [])
        [Extend_schemata [''hr''], Set_dbname ''hr'',
         Extend_relations (Yield [''EMPLOYEES''] Done) Tables ''hr'',
         Extend_columns (Yield [''EMPLOYEES'', ''EMPLOYEE_ID'']
                          (Yield [''EMPLOYEES'', ''FIRST_NAME''] Done)) Tables ''hr'',
         Extend_relations (Yield [''EMP_V''] Done) Views ''hr''])
     [(None, ''EMPLOYEES'', None)] = Inr [''*'', ''EMPLOYEE_ID'', ''FIRST_NAME'']
   \<and> populate_scoped_cols
     (run_ops (new_completer True [] [])
        [Extend_schemata [''hr''], Set_dbname ''hr'',
         Extend_relations (Yield [''EMPLOYEES''] Done) Tables ''hr'',
         Extend_columns (Yield [''EMPLOYEES'', ''EMPLOYEE_ID'']
                          (Yield [''EMPLOYEES'', ''FIRST_NAME''] Done)) Tables ''hr'',
         Extend_relations (Yield [''EMP_V''] Done) Views ''hr''])
     [(None, ''EMPLOYEES'', Some ''e''), (Some ''XX'', ''EMPLOYEES'', None),
      (Some ''hr'', ''EMP_V'', None), (None, ''NOPE'', None), (None, ''EMPLOYEES'', None)]
     = Inr [''*'', ''EMPLOYEE_ID'', ''FIRST_NAME'', ''*'', ''*'', ''EMPLOYEE_ID'', ''FIRST_NAME'']"
proof -
  let ?s = "(run_ops (new_completer True [] [])
        [Extend_schemata [''hr''], Set_dbname ''hr'',
         Extend_relations (Yield [''EMPLOYEES''] Done) Tables ''hr'',
         Extend_columns (Yield [''EMPLOYEES'', ''EMPLOYEE_ID'']
                          (Yield [''EMPLOYEES'', ''FIRST_NAME''] Done)) Tables ''hr'',
         Extend_relations (Yield [''EMP_V''] Done) Views ''hr''])"
  let ?refs = "[(None, ''EMPLOYEES'', Some ''e''), (Some ''XX'', ''EMPLOYEES'', None),
      (Some ''hr'', ''EMP_V'', None), (None, ''NOPE'', None), (None, ''EMPLOYEES'', None)]"
  let ?cols = "[''*'', ''EMPLOYEE_ID'', ''FIRST_NAME'']"
  have st: "meta_tables ?s = [(''HR'', [(''EMPLOYEES'', ?cols)])]"
    "meta_views ?s = [(''HR'', [(''EMP_V'', [''*''])])]"
    "dbname ?s = ''HR''"
    by (simp_all add: catalog_eval)
  have u: "upper ''hr'' = ''HR''" "upper ''HR'' = ''HR''"
    by (simp_all add: upper_def char_upper_def)
  have h1: "''hr'' \<noteq> [] \<and> lookup_relation (meta_tables ?s) (upper ''hr'') ''EMPLOYEES'' = Some ?cols"
    by (simp add: st u lookup_relation_def)
  have h2: "''hr'' \<noteq> [] \<and> lookup_relation (meta_tables ?s) (upper ''hr'') ''EMP_V'' = None
      \<and> lookup_relation (meta_views ?s) (upper ''hr'') ''EMP_V'' = Some [''*'']"
    by (simp add: st u lookup_relation_def)
  have h3: "''hr'' \<noteq> [] \<and> lookup_relation (meta_tables ?s) (upper ''hr'') ''NOPE'' = None
      \<and> lookup_relation (meta_views ?s) (upper ''hr'') ''NOPE'' = None"
    by (simp add: st u lookup_relation_def)
  have h4: "lookup_relation (meta_tables ?s) (upper (dbname ?s)) ''EMPLOYEES'' = Some ?cols"
    by (simp add: st u lookup_relation_def)
  have c: "concat (map (resolved_columns ?s) ?refs) = ?cols @ [''*''] @ ?cols"
    by (simp add: st resolved_columns_def lookup_relation_def escape_name_def upper_def
        char_upper_def Let_def)
  from populate_scoped_cols_resolves[of ?s ?refs "''hr''" "''EMPLOYEES''" ?cols None] h1 h4 c
  have a1: "populate_scoped_cols ?s [(Some ''hr'', ''EMPLOYEES'', None)] = Inr ?cols"
    and a4: "populate_scoped_cols ?s [(None, ''EMPLOYEES'', None)] = Inr ?cols"
    and a5: "populate_scoped_cols ?s ?refs = Inr (?cols @ [''*''] @ ?cols)"
    by simp_all
  from populate_scoped_cols_resolves[of ?s "[]" "''hr''" "''EMP_V''" "[''*'']" None] h2
  have a2: "populate_scoped_cols ?s [(Some ''hr'', ''EMP_V'', None)] = Inr [''*'']"
    by blast
  from populate_scoped_cols_resolves[of ?s "[]" "''hr''" "''NOPE''" "[]" None] h3
  have a3: "populate_scoped_cols ?s [(Some ''hr'', ''NOPE'', None)] = Inr []"
    by blast
  from a1 a2 a3 a4 a5 show ?thesis by simp
qed

subsection \<open>Columns shared between relations\<close>

lemma counter_add_map_of:
  "map_of (counter_add c x) k =
     (if k = x then Some (case map_of c x of None \<Rightarrow> 1 | Some n \<Rightarrow> Suc n) else map_of c k)"
  by (simp add: counter_add_def update_conv')

lemma counter_add_distinct: "distinct (map fst c) \<Longrightarrow> distinct (map fst (counter_add c x))"
  by (simp add: counter_add_def distinct_update)

lemma foldl_counter_add:
  "distinct (map fst c) \<Longrightarrow>
     distinct (map fst (foldl counter_add c xs))
     \<and> map_of (foldl counter_add c xs) k =
         (case map_of c k of
            None \<Rightarrow> if count_list xs k = 0 then None else Some (count_list xs k)
          | Some m \<Rightarrow> Some (m + count_list xs k))"
proof (induction xs arbitrary: c)
  case Nil
  then show ?case by (simp split: option.splits)
next
  case (Cons x xs)
  from Cons.IH[OF counter_add_distinct[OF Cons.prems], of x] show ?case
    by (auto simp: counter_add_map_of split: option.splits)
qed

lemma counter_items_distinct: "distinct (map fst (counter_items xs))"
  using foldl_counter_add[of "[]" xs] by (simp add: counter_items_def)

lemma counter_items_map_of:
  "map_of (counter_items xs) k = (if count_list xs k = 0 then None else Some (count_list xs k))"
  using foldl_counter_add[of "[]" xs k] by (simp add: counter_items_def)

lemma counter_items_set:
  "(k, n) \<in> set (counter_items xs) \<longleftrightarrow> n = count_list xs k \<and> 0 < n"
  using map_of_eq_Some_iff[OF counter_items_distinct, of xs k n]
  by (auto simp: counter_items_map_of split: if_splits)

lemma drop_unique_cols_set:
  "set (drop_unique_cols cols) = {c. 2 \<le> count_list cols c \<and> c \<noteq> ''*''}"
proof -
  have "set (drop_unique_cols cols) =
      fst ` {(k, n). (k, n) \<in> set (counter_items cols) \<and> 1 < n \<and> k \<noteq> ''*''}"
    by (auto simp: drop_unique_cols_def)
  also have "\<dots> = {c. 2 \<le> count_list cols c \<and> c \<noteq> ''*''}"
    by (auto simp: counter_items_set image_iff)
  finally show ?thesis .
qed

lemma drop_unique_cols_distinct: "distinct (drop_unique_cols cols)"
  unfolding drop_unique_cols_def
  by (rule distinct_map_filter) (rule counter_items_distinct)

lemma count_list_distinct: "distinct xs \<Longrightarrow> count_list xs k = (if k \<in> set xs then 1 else 0)"
  by (induction xs) auto

lemma distinct_singleton: "distinct xs \<Longrightarrow> set xs = {x} \<Longrightarrow> xs = [x]"
  by (cases xs) (auto simp: insert_ident dest: subset_singletonD)

lemma drop_unique_cols_shared:
  assumes "distinct A" "distinct B" "x \<noteq> ''*''" "set A \<inter> set B - {''*''} = {x}"
  shows "drop_unique_cols (A @ B) = [x]"
proof -
  have "set (drop_unique_cols (A @ B)) = set A \<inter> set B - {''*''}"
    using assms(1,2) by (auto simp: drop_unique_cols_set count_list_distinct)
  with assms(4) drop_unique_cols_distinct[of "A @ B"] show ?thesis
    by (intro distinct_singleton) simp_all
qed

text \<open>
  Claim C2. The filter of the column suggestion under \<^verbatim>\<open>drop_unique\<close> keeps exactly the
  column names that occur at least twice in the concatenated column list and are not
  the wildcard \<^verbatim>\<open>*\<close>, each once; the column suggestion matches against the filtered
  list. In particular, for two references whose column lists are free of repetitions
  and share, the wildcard aside, exactly the name \<open>x\<close>, the filtered list is \<open>[x]\<close>.
\<close>

theorem drop_unique_filter:
  "set (drop_unique_cols cols) = {c. 2 \<le> count_list cols c \<and> c \<noteq> ''*''}
   \<and> distinct (drop_unique_cols cols)
   \<and> (populate_scoped_cols s tables = Inr cols \<longrightarrow>
        suggestion_completions lw fav s w (Column_sg tables True)
          = Inr (find_matches lw w (drop_unique_cols cols) False True))
   \<and> (populate_scoped_cols s [r1] = Inr A \<and> populate_scoped_cols s [r2] = Inr B
        \<and> distinct A \<and> distinct B \<and> x \<noteq> ''*'' \<and> set A \<inter> set B - {''*''} = {x} \<longrightarrow>
        populate_scoped_cols s [r1, r2] = Inr (A @ B)
        \<and> drop_unique_cols (A @ B) = [x]
        \<and> suggestion_completions lw fav s w (Column_sg [r1, r2] True)
            = Inr (find_matches lw w [x] False True))"
proof (intro conjI impI)
  show "set (drop_unique_cols cols) = {c. 2 \<le> count_list cols c \<and> c \<noteq> ''*''}"
    by (rule drop_unique_cols_set)
  show "distinct (drop_unique_cols cols)"
    by (rule drop_unique_cols_distinct)
next
  assume "populate_scoped_cols s tables = Inr cols"
  then show "suggestion_completions lw fav s w (Column_sg tables True)
          = Inr (find_matches lw w (drop_unique_cols cols) False True)"
    by simp
next
  assume a: "populate_scoped_cols s [r1] = Inr A \<and> populate_scoped_cols s [r2] = Inr B
        \<and> distinct A \<and> distinct B \<and> x \<noteq> ''*'' \<and> set A \<inter> set B - {''*''} = {x}"
  then show ab: "populate_scoped_cols s [r1, r2] = Inr (A @ B)"
    by (simp add: populate_scoped_cols_value)
  from a show d: "drop_unique_cols (A @ B) = [x]"
    by (intro drop_unique_cols_shared) simp_all
  from ab d show "suggestion_completions lw fav s w (Column_sg [r1, r2] True)
            = Inr (find_matches lw w [x] False True)"
    by simp
qed

theorem drop_unique_filter_witness:
  "populate_scoped_cols
     (run_ops (new_completer True [] [])
        [Extend_schemata [''hr''], Set_dbname ''hr'',
         Extend_relations (Yield [''EMPLOYEES''] (Yield [''DEPARTMENTS''] Done)) Tables ''hr'',
         Extend_columns (Yield [''EMPLOYEES'', ''EMPLOYEE_ID'']
                          (Yield [''EMPLOYEES'', ''DEPARTMENT_ID'']
                            (Yield [''DEPARTMENTS'', ''DEPARTMENT_ID'']
                              (Yield [''DEPARTMENTS'', ''NAME''] Done)))) Tables ''hr''])
     [(None, ''EMPLOYEES'', None), (None, ''DEPARTMENTS'', None)]
     = Inr ([''*'', ''EMPLOYEE_ID'', ''DEPARTMENT_ID''] @ [''*'', ''DEPARTMENT_ID'', ''NAME''])
   \<and> drop_unique_cols ([''*'', ''EMPLOYEE_ID'', ''DEPARTMENT_ID''] @ [''*'', ''DEPARTMENT_ID'', ''NAME''])
     = [''DEPARTMENT_ID'']
   \<and> suggestion_completions last_word []
     (run_ops (new_completer True [] [])
        [Extend_schemata [''hr''], Set_dbname ''hr'',
         Extend_relations (Yield [''EMPLOYEES''] (Yield [''DEPARTMENTS''] Done)) Tables ''hr'',
         Extend_columns (Yield [''EMPLOYEES'', ''EMPLOYEE_ID'']
                          (Yield [''EMPLOYEES'', ''DEPARTMENT_ID'']
                            (Yield [''DEPARTMENTS'', ''DEPARTMENT_ID'']
                              (Yield [''DEPARTMENTS'', ''NAME''] Done)))) Tables ''hr''])
     ''using d''
     (Column_sg [(None, ''EMPLOYEES'', None), (None, ''DEPARTMENTS'', None)] True)
     = Inr [Completion ''DEPARTMENT_ID'' (- 1)]"
proof -
  let ?s = "run_ops (new_completer True [] [])
        [Extend_schemata [''hr''], Set_dbname ''hr'',
         Extend_relations (Yield [''EMPLOYEES''] (Yield [''DEPARTMENTS''] Done)) Tables ''hr'',
         Extend_columns (Yield [''EMPLOYEES'', ''EMPLOYEE_ID'']
                          (Yield [''EMPLOYEES'', ''DEPARTMENT_ID'']
                            (Yield [''DEPARTMENTS'', ''DEPARTMENT_ID'']
                              (Yield [''DEPARTMENTS'', ''NAME''] Done)))) Tables ''hr'']"
  let ?A = "[''*'', ''EMPLOYEE_ID'', ''DEPARTMENT_ID'']"
  let ?B = "[''*'', ''DEPARTMENT_ID'', ''NAME'']"
  have st: "meta_tables ?s = [(''HR'', [(''EMPLOYEES'', ?A), (''DEPARTMENTS'', ?B)])]"
    "meta_views ?s = [(''HR'', [])]"
    "dbname ?s = ''HR''"
    by (simp_all add: catalog_eval)
  have a: "populate_scoped_cols ?s [(None, ''EMPLOYEES'', None)] = Inr ?A"
    and b: "populate_scoped_cols ?s [(None, ''DEPARTMENTS'', None)] = Inr ?B"
    by (simp_all add: populate_scoped_cols_value st resolved_columns_def lookup_relation_def
        escape_name_def upper_def char_upper_def)
  have d: "distinct ?A \<and> distinct ?B \<and> ''DEPARTMENT_ID'' \<noteq> ''*''
      \<and> set ?A \<inter> set ?B - {''*''} = {''DEPARTMENT_ID''}"
    by auto
  have f: "find_matches last_word ''using d'' [''DEPARTMENT_ID''] False True
      = [Completion ''DEPARTMENT_ID'' (- 1)]"
    by code_simp
  note t = drop_unique_filter[of "?A @ ?B" ?s
      "[(None, ''EMPLOYEES'', None), (None, ''DEPARTMENTS'', None)]" last_word "[]" "''using d''"
      "(None, ''EMPLOYEES'', None)" ?A "(None, ''DEPARTMENTS'', None)" ?B "''DEPARTMENT_ID''"]
  from t a b d have r: "populate_scoped_cols ?s [(None, ''EMPLOYEES'', None), (None, ''DEPARTMENTS'', None)]
      = Inr (?A @ ?B)"
    and u: "drop_unique_cols (?A @ ?B) = [''DEPARTMENT_ID'']"
    and c: "suggestion_completions last_word [] ?s ''using d''
     (Column_sg [(None, ''EMPLOYEES'', None), (None, ''DEPARTMENTS'', None)] True)
     = Inr (find_matches last_word ''using d'' [''DEPARTMENT_ID''] False True)"
    by blast+
  from r u c f show ?thesis by simp
qed

subsection \<open>The catalog\<close>

lemma char_upper_idem: "char_upper (char_upper c) = char_upper c"
  by (cases c) (auto simp: char_upper_def less_eq_char_def)

lemma upper_idem: "upper (upper x) = upper x"
  by (simp add: upper_def char_upper_idem)

lemma dict_keys_setitem:
  "dict_keys (setitem d k v) = (if k \<in> set (dict_keys d) then dict_keys d else dict_keys d @ [k])"
  by (simp add: dict_keys_def setitem_def update_keys)

lemma getitem_Inr_key: "getitem d k = Inr v \<Longrightarrow> k \<in> set (dict_keys d)"
  by (auto simp: getitem_def dict_keys_def split: option.splits dest: map_of_SomeD
      intro: rev_image_eqI)

lemma getitem_Inl: "getitem d k = Inl e \<Longrightarrow> e = KeyError \<and> map_of d k = None"
  by (auto simp: getitem_def split: option.splits)

lemma schema_keys_set_meta:
  "getitem (get_meta s k) schema = Inr rels \<Longrightarrow>
     schema_keys (set_meta s k (setitem (get_meta s k) schema v)) = schema_keys s"
  by (cases k) (auto simp: schema_keys_def dict_keys_setitem dest: getitem_Inr_key)

lemma schema_keys_all_completions [simp]:
  "schema_keys (s\<lparr>all_completions := a\<rparr>) = schema_keys s"
  by (simp add: schema_keys_def)

lemma extend_relations_loop_keys:
  "schema_keys (object_after (extend_relations_loop k schema rows s)) = schema_keys s"
proof (induction rows arbitrary: s)
  case Nil
  then show ?case by simp
next
  case (Cons row rows)
  show ?case
  proof (cases row)
    case Nil
    then show ?thesis by simp
  next
    case (Cons name rest)
    then show ?thesis
      by (cases "getitem (get_meta s k) schema")
        (simp_all add: Cons.IH schema_keys_set_meta Let_def)
  qed
qed

lemma extend_columns_loop_keys:
  "schema_keys (object_after (extend_columns_loop k schema rows s)) = schema_keys s"
proof (induction rows arbitrary: s)
  case Nil
  then show ?case by simp
next
  case (Cons row rows)
  show ?case
    by (auto simp: Cons.IH schema_keys_set_meta Let_def split: list.splits sum.splits)
qed

lemma extend_functions_loop_keys:
  "schema_keys (object_after (extend_functions_loop schema rows s)) = schema_keys s"
proof (induction rows arbitrary: s)
  case Nil
  then show ?case by simp
next
  case (Cons row rows)
  have "getitem (meta_functions s) schema = Inr fs \<Longrightarrow>
      schema_keys (s\<lparr>meta_functions := setitem (meta_functions s) schema v, all_completions := a\<rparr>)
        = schema_keys s" for fs v a
    by (auto simp: schema_keys_def dict_keys_setitem dest: getitem_Inr_key)
  then show ?case
    by (auto simp: Cons.IH Let_def split: list.splits sum.splits)
qed

lemma schema_keys_u_extend_schemata:
  "set (schema_keys (u_extend_schemata s schema)) = insert (upper schema) (set (schema_keys s))"
  by (auto simp: u_extend_schemata_def schema_keys_def dict_keys_setitem Let_def)

lemma u_extend_schemata_keys_upper: "keys_upper s \<Longrightarrow> keys_upper (u_extend_schemata s schema)"
  by (simp add: keys_upper_def schema_keys_u_extend_schemata upper_idem)

lemma extend_schemata_keys_upper: "keys_upper s \<Longrightarrow> keys_upper (extend_schemata s schemas)"
  unfolding extend_schemata_def
  by (induction schemas arbitrary: s) (simp_all add: u_extend_schemata_keys_upper)

lemma apply_op_keys_upper: "keys_upper s \<Longrightarrow> keys_upper (object_after (apply_op s op))"
proof (cases op)
  case (Extend_schemata schemas)
  assume "keys_upper s"
  with Extend_schemata show ?thesis by (simp add: extend_schemata_keys_upper)
next
  case (Extend_relations data k schema)
  assume "keys_upper s"
  with Extend_relations show ?thesis
    by (simp add: keys_upper_def extend_relations_def extend_relations_loop_keys)
next
  case (Extend_columns data k schema)
  assume "keys_upper s"
  with Extend_columns show ?thesis
    by (simp add: keys_upper_def extend_columns_def extend_columns_loop_keys)
next
  case (Extend_functions data schema)
  assume "keys_upper s"
  with Extend_functions show ?thesis
    by (simp add: keys_upper_def extend_functions_def extend_functions_loop_keys)
next
  case (Set_dbname name)
  assume "keys_upper s"
  with Set_dbname show ?thesis
    by (simp add: keys_upper_def set_dbname_def schema_keys_def)
qed

lemma run_ops_keys_upper: "keys_upper s \<Longrightarrow> keys_upper (run_ops s ops)"
  unfolding run_ops_def
  by (induction ops arbitrary: s) (simp_all add: apply_op_keys_upper)

lemma reset_keys_upper: "keys_upper (reset_completions s)"
  by (simp add: keys_upper_def reset_completions_def schema_keys_def dict_keys_def)

subsection \<open>Object names are stored as supplied\<close>

lemma get_meta_set_meta: "get_meta (set_meta s k m) k = m"
  by (cases k) simp_all

lemma get_meta_all_completions: "get_meta (s\<lparr>all_completions := a\<rparr>) k = get_meta s k"
  by (cases k) simp_all

lemma escaped_names_id: "escaped_names row = row"
  by (induction row) (simp_all add: escaped_names_def escape_name_def)

lemma map_escaped_names: "map escaped_names rows = rows"
  by (induction rows) (simp_all add: escaped_names_id)

lemmas store_simps =
  get_meta_set_meta get_meta_all_completions escaped_names_id map_escaped_names

lemma extend_relations_loop_stores:
  assumes "map_of (get_meta s k) schema = Some rels" "[] \<notin> set rows"
  shows "\<exists>s'. extend_relations_loop k schema rows s = Inr s'
           \<and> (\<forall>n. lookup_relation (get_meta s' k) schema n =
                 (if n \<in> hd ` set rows then Some [''*''] else map_of rels n))"
  using assms
proof (induction rows arbitrary: s rels)
  case Nil
  then show ?case by (simp add: lookup_relation_def)
next
  case (Cons row rows)
  from Cons.prems(2) obtain name rest where row: "row = name # rest"
    by (cases row) auto
  let ?s1 = "set_meta s k (setitem (get_meta s k) schema (setitem rels name [''*'']))"
  let ?s2 = "?s1\<lparr>all_completions := insert name (all_completions ?s1)\<rparr>"
  have m: "map_of (get_meta ?s2 k) schema = Some (setitem rels name [''*''])"
    by (simp add: setitem_def update_conv' store_simps)
  from Cons.prems(2) have "[] \<notin> set rows" by simp
  from Cons.IH[OF m this] obtain s' where s': "extend_relations_loop k schema rows ?s2 = Inr s'"
    and l: "\<forall>n. lookup_relation (get_meta s' k) schema n =
                 (if n \<in> hd ` set rows then Some [''*'']
                  else map_of (setitem rels name [''*'']) n)"
    by blast
  have "extend_relations_loop k schema (row # rows) s = Inr s'"
    using s' Cons.prems(1) by (simp add: row getitem_def Let_def)
  moreover have "\<forall>n. lookup_relation (get_meta s' k) schema n =
                 (if n \<in> hd ` set (row # rows) then Some [''*''] else map_of rels n)"
    using l by (auto simp: row setitem_def update_conv')
  ultimately show ?case by blast
qed

lemma extend_functions_loop_stores:
  assumes "map_of (meta_functions s) schema = Some fs" "[] \<notin> set rows"
  shows "\<exists>s'. extend_functions_loop schema rows s = Inr s'
           \<and> (\<forall>n. (case map_of (meta_functions s') schema of
                       None \<Rightarrow> None | Some d \<Rightarrow> map_of d n) =
                 (if n \<in> hd ` set rows then Some () else map_of fs n))"
  using assms
proof (induction rows arbitrary: s fs)
  case Nil
  then show ?case by simp
next
  case (Cons row rows)
  from Cons.prems(2) obtain name rest where row: "row = name # rest"
    by (cases row) auto
  let ?s2 = "s\<lparr>meta_functions := setitem (meta_functions s) schema (setitem fs name ()),
                all_completions := insert name (all_completions s)\<rparr>"
  have m: "map_of (meta_functions ?s2) schema = Some (setitem fs name ())"
    by (simp add: setitem_def update_conv')
  from Cons.prems(2) have "[] \<notin> set rows" by simp
  from Cons.IH[OF m this] obtain s' where s': "extend_functions_loop schema rows ?s2 = Inr s'"
    and l: "\<forall>n. (case map_of (meta_functions s') schema of
                       None \<Rightarrow> None | Some d \<Rightarrow> map_of d n) =
                 (if n \<in> hd ` set rows then Some () else map_of (setitem fs name ()) n)"
    by blast
  have "extend_functions_loop schema (row # rows) s = Inr s'"
    using s' Cons.prems(1) by (simp add: row getitem_def)
  moreover have "\<forall>n. (case map_of (meta_functions s') schema of
                       None \<Rightarrow> None | Some d \<Rightarrow> map_of d n) =
                 (if n \<in> hd ` set (row # rows) then Some () else map_of fs n)"
    using l by (auto simp: row setitem_def update_conv')
  ultimately show ?case by blast
qed

lemma set_setitem_subset: "set (setitem m k v) \<subseteq> insert (k, v) (set m)"
  unfolding setitem_def by (induction m) auto

lemma set_dict_keys_setitem: "set (dict_keys (setitem d n v)) = insert n (set (dict_keys d))"
  by (auto simp: dict_keys_setitem)

lemma names_of_setitem: "names_of (setitem m k d) \<subseteq> names_of m \<union> set (dict_keys d)"
  using set_setitem_subset[of m k d] by (fastforce simp: names_of_def)

lemma names_of_map_of: "map_of m k = Some d \<Longrightarrow> set (dict_keys d) \<subseteq> names_of m"
  by (auto simp: names_of_def dest!: map_of_SomeD)

lemma set_object_names:
  "set (object_names s) = names_of (meta_tables s) \<union> names_of (meta_views s) \<union> names_of (meta_functions s)"
  by (auto simp: object_names_def names_of_def case_prod_beta)

lemma names_of_store:
  assumes "map_of m schema = Some rels"
  shows "names_of (setitem m schema (setitem rels name v)) \<subseteq> insert name (names_of m)"
  using names_of_setitem[of m schema "setitem rels name v"] names_of_map_of[OF assms]
  by (auto simp: set_dict_keys_setitem)

lemma object_names_set_meta:
  assumes "map_of (get_meta s k) schema = Some rels"
  shows "set (object_names (set_meta s k (setitem (get_meta s k) schema (setitem rels name v))))
           \<subseteq> insert name (set (object_names s))"
  using names_of_store[OF assms, of name v] assms by (cases k) (auto simp: set_object_names)

lemma object_names_all_completions [simp]:
  "object_names (s\<lparr>all_completions := a\<rparr>) = object_names s"
  by (simp add: object_names_def)

lemma extend_relations_loop_names:
  "set (object_names (object_after (extend_relations_loop k schema rows s)))
     \<subseteq> set (object_names s) \<union> hd ` {row \<in> set rows. row \<noteq> []}"
proof (induction rows arbitrary: s)
  case Nil
  then show ?case by simp
next
  case (Cons row rows)
  show ?case
  proof (cases row)
    case Nil
    then show ?thesis by auto
  next
    case (Cons name rest)
    let ?s1 = "(case getitem (get_meta s k) schema of
                  Inr rels \<Rightarrow> set_meta s k (setitem (get_meta s k) schema (setitem rels name [''*'']))
                | Inl e \<Rightarrow> s)"
    have a: "set (object_names ?s1) \<subseteq> insert name (set (object_names s))"
    proof (cases "map_of (get_meta s k) schema")
      case None
      then show ?thesis by (auto simp: getitem_def)
    next
      case (Some rels)
      from object_names_set_meta[OF Some, of name "[''*'']"] Some show ?thesis
        by (simp add: getitem_def)
    qed
    let ?s2 = "?s1\<lparr>all_completions := insert name (all_completions ?s1)\<rparr>"
    have e: "extend_relations_loop k schema (row # rows) s = extend_relations_loop k schema rows ?s2"
      by (simp add: Cons Let_def)
    have "set (object_names (object_after (extend_relations_loop k schema rows ?s2)))
        \<subseteq> set (object_names ?s2) \<union> hd ` {row \<in> set rows. row \<noteq> []}"
      by (rule Cons.IH)
    also have "set (object_names ?s2) = set (object_names ?s1)"
      by (simp only: object_names_all_completions)
    finally have b: "set (object_names (object_after (extend_relations_loop k schema rows ?s2)))
        \<subseteq> insert name (set (object_names s)) \<union> hd ` {row \<in> set rows. row \<noteq> []}"
      using a by blast
    have "{r \<in> set (row # rows). r \<noteq> []} = insert (name # rest) {r \<in> set rows. r \<noteq> []}"
      by (auto simp: Cons)
    then have c: "hd ` {r \<in> set (row # rows). r \<noteq> []} = insert name (hd ` {r \<in> set rows. r \<noteq> []})"
      by simp
    from b show ?thesis
      unfolding e c by blast
  qed
qed

lemma extend_functions_loop_names:
  "set (object_names (object_after (extend_functions_loop schema rows s)))
     \<subseteq> set (object_names s) \<union> hd ` {row \<in> set rows. row \<noteq> []}"
proof (induction rows arbitrary: s)
  case Nil
  then show ?case by simp
next
  case (Cons row rows)
  show ?case
  proof (cases "map_of (meta_functions s) schema")
    case None
    then show ?thesis by (simp add: getitem_def)
  next
    case (Some fs)
    show ?thesis
    proof (cases row)
      case Nil
      with Some show ?thesis by (simp add: getitem_def)
    next
      case (Cons name rest)
      let ?s2 = "s\<lparr>meta_functions := setitem (meta_functions s) schema (setitem fs name ()),
                    all_completions := insert name (all_completions s)\<rparr>"
      have e: "extend_functions_loop schema (row # rows) s = extend_functions_loop schema rows ?s2"
        using Some by (simp add: Cons getitem_def)
      have a: "set (object_names ?s2) \<subseteq> insert name (set (object_names s))"
        using names_of_store[OF Some, of name "()"] by (auto simp: set_object_names)
      have "set (object_names (object_after (extend_functions_loop schema rows ?s2)))
          \<subseteq> set (object_names ?s2) \<union> hd ` {row \<in> set rows. row \<noteq> []}"
        by (rule Cons.IH)
      with a have b: "set (object_names (object_after (extend_functions_loop schema rows ?s2)))
          \<subseteq> insert name (set (object_names s)) \<union> hd ` {row \<in> set rows. row \<noteq> []}"
        by blast
      have "{r \<in> set (row # rows). r \<noteq> []} = insert (name # rest) {r \<in> set rows. r \<noteq> []}"
        by (auto simp: Cons)
      then have c: "hd ` {r \<in> set (row # rows). r \<noteq> []}
          = insert name (hd ` {r \<in> set rows. r \<noteq> []})"
        by simp
      from b show ?thesis
        unfolding e c by blast
    qed
  qed
qed

lemma names_of_append_column:
  assumes "map_of m schema = Some rels" "map_of rels relname = Some cols"
  shows "names_of (setitem m schema (setitem rels relname v)) \<subseteq> names_of m"
proof -
  from assms(2) have "relname \<in> set (dict_keys rels)"
    by (auto simp: dict_keys_def dest!: map_of_SomeD intro: rev_image_eqI)
  with names_of_store[OF assms(1), of relname v] names_of_map_of[OF assms(1)]
  show ?thesis by auto
qed

lemma extend_columns_loop_names:
  "set (object_names (object_after (extend_columns_loop k schema rows s))) \<subseteq> set (object_names s)"
proof (induction rows arbitrary: s)
  case Nil
  then show ?case by simp
next
  case (Cons row rows)
  show ?case
  proof (cases "\<exists>relname column rels cols. row = [relname, column]
      \<and> map_of (get_meta s k) schema = Some rels \<and> map_of rels relname = Some cols")
    case True
    then obtain relname column rels cols where r: "row = [relname, column]"
      and m: "map_of (get_meta s k) schema = Some rels" and c: "map_of rels relname = Some cols"
      by blast
    let ?s1 = "set_meta s k (setitem (get_meta s k) schema (setitem rels relname (cols @ [column])))"
    let ?s2 = "?s1\<lparr>all_completions := insert column (all_completions ?s1)\<rparr>"
    have e: "extend_columns_loop k schema (row # rows) s = extend_columns_loop k schema rows ?s2"
      using m c by (simp add: r getitem_def Let_def store_simps)
    have a: "set (object_names ?s2) \<subseteq> set (object_names s)"
      using names_of_append_column[OF m c, of "cols @ [column]"] m
      by (cases k) (auto simp: set_object_names)
    have "set (object_names (object_after (extend_columns_loop k schema rows ?s2)))
        \<subseteq> set (object_names ?s2)"
      by (rule Cons.IH)
    with a show ?thesis unfolding e by blast
  next
    case False
    then have "object_after (extend_columns_loop k schema (row # rows) s) = s"
      by (auto simp: getitem_def split: list.splits option.splits)
    then show ?thesis by simp
  qed
qed

lemma u_extend_schemata_names:
  "set (object_names (u_extend_schemata s schema)) \<subseteq> set (object_names s)"
  using names_of_setitem[of "meta_tables s" "upper schema" "[]"]
    names_of_setitem[of "meta_views s" "upper schema" "[]"]
    names_of_setitem[of "meta_functions s" "upper schema" "[]"]
  by (auto simp: set_object_names u_extend_schemata_def Let_def dict_keys_def)

lemma extend_schemata_names:
  "set (object_names (extend_schemata s schemas)) \<subseteq> set (object_names s)"
  unfolding extend_schemata_def
proof (induction schemas arbitrary: s)
  case Nil
  then show ?case by simp
next
  case (Cons a schemas)
  from Cons.IH[of "u_extend_schemata s a"] u_extend_schemata_names[of s a]
  show ?case by auto
qed

lemma apply_op_names:
  "set (object_names (object_after (apply_op s op))) \<subseteq> set (object_names s) \<union> supplied_names op"
proof (cases op)
  case (Extend_schemata schemas)
  with extend_schemata_names[of s schemas] show ?thesis by auto
next
  case (Extend_relations data k schema)
  show ?thesis
  proof (cases "consume data")
    case None
    with Extend_relations show ?thesis by (simp add: extend_relations_def)
  next
    case (Some rows)
    with Extend_relations extend_relations_loop_names[of k "upper schema" rows s]
    show ?thesis by (simp add: extend_relations_def supplied_names_def store_simps)
  qed
next
  case (Extend_columns data k schema)
  with extend_columns_loop_names[of k "upper schema" _ s] show ?thesis
    by (auto simp: extend_columns_def store_simps)
next
  case (Extend_functions data schema)
  show ?thesis
  proof (cases "consume data")
    case None
    with Extend_functions show ?thesis by (simp add: extend_functions_def)
  next
    case (Some rows)
    with Extend_functions extend_functions_loop_names[of schema rows s]
    show ?thesis by (simp add: extend_functions_def supplied_names_def store_simps)
  qed
next
  case (Set_dbname name)
  then show ?thesis by (simp add: set_dbname_def object_names_def)
qed

lemma run_ops_names:
  "set (object_names (run_ops s ops)) \<subseteq> set (object_names s) \<union> (\<Union>op\<in>set ops. supplied_names op)"
  unfolding run_ops_def
proof (induction ops arbitrary: s)
  case Nil
  then show ?case by simp
next
  case (Cons op ops)
  from Cons.IH[of "object_after (apply_op s op)"] apply_op_names[of s op]
  show ?case by auto
qed

text \<open>
  Claim C8, as amended. After any sequence of \<^verbatim>\<open>extend_schemata\<close>, \<^verbatim>\<open>extend_relations\<close>,
  \<^verbatim>\<open>extend_columns\<close>, \<^verbatim>\<open>extend_functions\<close> and \<^verbatim>\<open>set_dbname\<close> on a completer that was
  reset, whether or not a call raised, every schema key of the three dictionaries is
  uppercase; and the calls keep that property of any completer that has it. Object
  names are stored as they are supplied: every object name in the dictionaries after
  such a sequence was there before or is, character for character, a name that a call
  handed over; and \<^verbatim>\<open>extend_relations\<close> and \<^verbatim>\<open>extend_functions\<close> on a registered schema,
  given rows that all have a name, return normally and leave under that schema exactly
  the entries of before and an entry under each name as given (with the column list
  \<^verbatim>\<open>['*']\<close> for a relation).
\<close>

theorem schema_keys_uppercased:
  "(\<forall>k\<in>set (schema_keys (run_ops (reset_completions s) ops)). upper k = k)
   \<and> ((\<forall>k\<in>set (schema_keys s). upper k = k) \<longrightarrow>
        (\<forall>k\<in>set (schema_keys (run_ops s ops)). upper k = k))
   \<and> set (object_names (run_ops s ops))
        \<subseteq> set (object_names s) \<union> (\<Union>op\<in>set ops. supplied_names op)
   \<and> (consume data = Some rows \<and> [] \<notin> set rows
        \<and> map_of (get_meta s k) (upper schema) = Some rels \<longrightarrow>
        extend_relations s data k schema = Inr (object_after (extend_relations s data k schema))
        \<and> (\<forall>n. lookup_relation (get_meta (object_after (extend_relations s data k schema)) k)
                   (upper schema) n
                 = (if n \<in> hd ` set rows then Some [''*''] else map_of rels n)))
   \<and> (consume data = Some rows \<and> [] \<notin> set rows
        \<and> map_of (meta_functions s) fschema = Some fs \<longrightarrow>
        extend_functions s data fschema = Inr (object_after (extend_functions s data fschema))
        \<and> (\<forall>n. (case map_of (meta_functions (object_after (extend_functions s data fschema)))
                          fschema of
                     None \<Rightarrow> None | Some d \<Rightarrow> map_of d n)
                 = (if n \<in> hd ` set rows then Some () else map_of fs n)))"
proof (intro conjI impI)
  show "\<forall>k\<in>set (schema_keys (run_ops (reset_completions s) ops)). upper k = k"
    using run_ops_keys_upper[OF reset_keys_upper, of s ops] by (simp add: keys_upper_def)
next
  assume "\<forall>k\<in>set (schema_keys s). upper k = k"
  then show "\<forall>k\<in>set (schema_keys (run_ops s ops)). upper k = k"
    using run_ops_keys_upper[of s ops] by (simp add: keys_upper_def)
next
  show "set (object_names (run_ops s ops))
        \<subseteq> set (object_names s) \<union> (\<Union>op\<in>set ops. supplied_names op)"
    by (rule run_ops_names)
next
  assume a: "consume data = Some rows \<and> [] \<notin> set rows
        \<and> map_of (get_meta s k) (upper schema) = Some rels"
  then obtain s' where s': "extend_relations_loop k (upper schema) rows s = Inr s'"
    and l: "\<forall>n. lookup_relation (get_meta s' k) (upper schema) n =
                 (if n \<in> hd ` set rows then Some [''*''] else map_of rels n)"
    using extend_relations_loop_stores[of s k "upper schema" rels rows] by blast
  from a s' have e: "extend_relations s data k schema = Inr s'"
    by (simp add: extend_relations_def store_simps)
  then show "extend_relations s data k schema = Inr (object_after (extend_relations s data k schema))"
    by simp
  from e l show "\<forall>n. lookup_relation (get_meta (object_after (extend_relations s data k schema)) k)
                   (upper schema) n
                 = (if n \<in> hd ` set rows then Some [''*''] else map_of rels n)"
    by simp
next
  assume a: "consume data = Some rows \<and> [] \<notin> set rows
        \<and> map_of (meta_functions s) fschema = Some fs"
  then obtain s' where s': "extend_functions_loop fschema rows s = Inr s'"
    and l: "\<forall>n. (case map_of (meta_functions s') fschema of
                       None \<Rightarrow> None | Some d \<Rightarrow> map_of d n) =
                 (if n \<in> hd ` set rows then Some () else map_of fs n)"
    using extend_functions_loop_stores[of s fschema fs rows] by blast
  from a s' have e: "extend_functions s data fschema = Inr s'"
    by (simp add: extend_functions_def store_simps)
  then show "extend_functions s data fschema = Inr (object_after (extend_functions s data fschema))"
    by simp
  from e l show "\<forall>n. (case map_of (meta_functions (object_after (extend_functions s data fschema)))
                          fschema of
                     None \<Rightarrow> None | Some d \<Rightarrow> map_of d n)
                 = (if n \<in> hd ` set rows then Some () else map_of fs n)"
    by simp
qed

theorem schema_keys_uppercased_witness:
  "schema_keys (run_ops (reset_completions (new_completer True [] []))
      [Extend_schemata [''hr'', ''Sys''], Set_dbname ''hr'',
       Extend_relations (Yield [''emp''] Done) Tables ''hr'',
       Extend_columns (Yield [''emp'', ''id''] Done) Tables ''hr'',
       Extend_functions (Yield [''f''] Done) ''hr''])
     = [''HR'', ''SYS'', ''HR'', ''SYS'', ''HR'', ''SYS'']
   \<and> upper ''HR'' = ''HR'' \<and> upper ''SYS'' = ''SYS''
   \<and> ''EMP'' \<notin> set (object_names (run_ops (reset_completions (new_completer True [] []))
      [Extend_schemata [''hr'', ''Sys''], Set_dbname ''hr'',
       Extend_relations (Yield [''emp''] Done) Tables ''hr'',
       Extend_columns (Yield [''emp'', ''id''] Done) Tables ''hr'',
       Extend_functions (Yield [''f''] Done) ''hr'']))
   \<and> lookup_relation
        (get_meta (object_after (extend_relations (extend_schemata (new_completer True [] []) [''hr''])
           (Yield [''emp_v''] (Yield [''Dept_V''] Done)) Views ''hr'')) Views)
        (upper ''hr'') ''emp_v'' = Some [''*'']
   \<and> lookup_relation
        (get_meta (object_after (extend_relations (extend_schemata (new_completer True [] []) [''hr''])
           (Yield [''emp_v''] (Yield [''Dept_V''] Done)) Views ''hr'')) Views)
        (upper ''hr'') ''EMP_V'' = None
   \<and> (case map_of (meta_functions (object_after (extend_functions
           (extend_schemata (new_completer True [] []) [''hr''])
           (Yield [''emp_v''] (Yield [''Dept_V''] Done)) ''HR''))) ''HR'' of
         None \<Rightarrow> None | Some d \<Rightarrow> map_of d ''Dept_V'') = Some ()"
proof -
  let ?ops = "[Extend_schemata [''hr'', ''Sys''], Set_dbname ''hr'',
       Extend_relations (Yield [''emp''] Done) Tables ''hr'',
       Extend_columns (Yield [''emp'', ''id''] Done) Tables ''hr'',
       Extend_functions (Yield [''f''] Done) ''hr'']"
  let ?r = "reset_completions (new_completer True [] [])"
  let ?s = "run_ops ?r ?ops"
  let ?base = "extend_schemata (new_completer True [] []) [''hr'']"
  let ?data = "Yield [''emp_v''] (Yield [''Dept_V''] Done)"
  have k: "schema_keys ?s = [''HR'', ''SYS'', ''HR'', ''SYS'', ''HR'', ''SYS'']"
    by (simp add: schema_keys_def catalog_eval)
  have st: "meta_views ?base = [(''HR'', [])]" "meta_functions ?base = [(''HR'', [])]"
    by (simp_all add: catalog_eval)
  have u: "upper ''hr'' = ''HR''" by (simp add: upper_def char_upper_def)
  have h: "consume ?data = Some [[''emp_v''], [''Dept_V'']] \<and> [] \<notin> set [[''emp_v''], [''Dept_V'']]
      \<and> map_of (get_meta ?base Views) (upper ''hr'') = Some []"
    by (simp add: st u)
  have hf: "consume ?data = Some [[''emp_v''], [''Dept_V'']] \<and> [] \<notin> set [[''emp_v''], [''Dept_V'']]
      \<and> map_of (meta_functions ?base) ''HR'' = Some []"
    by (simp add: st)
  have o: "set (object_names ?r) = {}"
    by (simp add: object_names_def reset_completions_def)
  have sn: "(\<Union>op\<in>set ?ops. supplied_names op) = {''emp'', ''f''}"
    by (auto simp: supplied_names_def)
  note t1 = schema_keys_uppercased[of "new_completer True [] []" ?ops]
  note t2 = schema_keys_uppercased[of ?r ?ops]
  note t3 = schema_keys_uppercased[of ?base "[]" ?data "[[''emp_v''], [''Dept_V'']]" Views "''hr''" "[]" "''HR''" "[]"]
  from t1[THEN conjunct1] k have a: "upper ''HR'' = ''HR'' \<and> upper ''SYS'' = ''SYS''"
    by simp
  from t2[THEN conjunct2, THEN conjunct2, THEN conjunct1] o sn
  have "set (object_names ?s) \<subseteq> {''emp'', ''f''}"
    by simp
  then have b: "''EMP'' \<notin> set (object_names ?s)" by auto
  from t3[THEN conjunct2, THEN conjunct2, THEN conjunct2, THEN conjunct1, THEN mp, OF h]
  have l: "\<forall>n. lookup_relation (get_meta (object_after (extend_relations ?base ?data Views ''hr'')) Views)
                   (upper ''hr'') n
                 = (if n \<in> hd ` set [[''emp_v''], [''Dept_V'']] then Some [''*''] else map_of [] n)"
    by (rule conjunct2)
  from l[THEN spec, of "''emp_v''"]
  have c: "lookup_relation (get_meta (object_after (extend_relations ?base ?data Views ''hr'')) Views)
        (upper ''hr'') ''emp_v'' = Some [''*'']"
    by simp
  from l[THEN spec, of "''EMP_V''"]
  have d: "lookup_relation (get_meta (object_after (extend_relations ?base ?data Views ''hr'')) Views)
        (upper ''hr'') ''EMP_V'' = None"
    by simp
  from t3[THEN conjunct2, THEN conjunct2, THEN conjunct2, THEN conjunct2, THEN mp, OF hf]
  have lf: "\<forall>n. (case map_of (meta_functions (object_after (extend_functions ?base ?data ''HR'')))
                          ''HR'' of
                     None \<Rightarrow> None | Some d \<Rightarrow> map_of d n)
                 = (if n \<in> hd ` set [[''emp_v''], [''Dept_V'']] then Some () else map_of [] n)"
    by (rule conjunct2)
  from lf[THEN spec, of "''Dept_V''"]
  have e: "(case map_of (meta_functions (object_after (extend_functions ?base ?data ''HR''))) ''HR'' of
         None \<Rightarrow> None | Some d \<Rightarrow> map_of d ''Dept_V'') = Some ()"
    by simp
  from k a b c d e show ?thesis by (intro conjI) simp_all
qed

text \<open>
  The claim C8 as it stands fails for the object names: a relation and a function
  registered under lowercase names are stored under those names.
\<close>

theorem object_names_counterexample:
  "object_names (run_ops (new_completer True [] [])
      [Extend_schemata [''hr''],
       Extend_relations (Yield [''emp''] Done) Tables ''hr'',
       Extend_functions (Yield [''get_pay''] Done) ''HR'']) = [''emp'', ''get_pay'']
   \<and> upper ''emp'' \<noteq> ''emp'' \<and> upper ''get_pay'' \<noteq> ''get_pay''"
  by (simp add: object_names_def catalog_eval)

text \<open>
  Claim C7. When the sequence of rows raises while it is consumed, \<^verbatim>\<open>extend_relations\<close>,
  \<^verbatim>\<open>extend_columns\<close> and \<^verbatim>\<open>extend_functions\<close> return normally and leave the completer as
  it was. A lookup under a schema that is not registered returns the empty list and
  does not raise, in \<^verbatim>\<open>populate_schema_objects\<close> and in \<^verbatim>\<open>populate_scoped_cols\<close>. And
  \<^verbatim>\<open>extend_columns\<close> raises \<^verbatim>\<open>KeyError\<close> when its first row names a relation that is not
  registered under the schema.
\<close>

theorem enumeration_failure_contained:
  "(consume data = None \<longrightarrow>
      extend_relations s data k schema = Inr s
      \<and> extend_columns s data k schema = Inr s
      \<and> extend_functions s data schema = Inr s)
   \<and> (map_of (get_meta s k) (upper (py_or sch (dbname s))) = None \<longrightarrow>
        populate_schema_objects s sch (Relations k) = Inr [])
   \<and> (map_of (meta_functions s) (upper (py_or sch (dbname s))) = None \<longrightarrow>
        populate_schema_objects s sch Functions = Inr [])
   \<and> (map_of (meta_tables s) (upper (py_or sch (dbname s))) = None
        \<and> map_of (meta_views s) (upper (py_or sch (dbname s))) = None \<longrightarrow>
        populate_scoped_cols s [(sch, rel, alias)] = Inr [])
   \<and> (consume data = Some ([rel, col] # rows)
        \<and> lookup_relation (get_meta s k) (upper schema) rel = None \<longrightarrow>
        extend_columns s data k schema = Inl (KeyError, s))"
proof (intro conjI impI)
  assume "consume data = None"
  then show "extend_relations s data k schema = Inr s"
    "extend_columns s data k schema = Inr s"
    "extend_functions s data schema = Inr s"
    by (simp_all add: extend_relations_def extend_columns_def extend_functions_def)
next
  assume "map_of (get_meta s k) (upper (py_or sch (dbname s))) = None"
  then show "populate_schema_objects s sch (Relations k) = Inr []"
    by (simp add: populate_schema_objects_value)
next
  assume "map_of (meta_functions s) (upper (py_or sch (dbname s))) = None"
  then show "populate_schema_objects s sch Functions = Inr []"
    by (simp add: populate_schema_objects_value)
next
  assume "map_of (meta_tables s) (upper (py_or sch (dbname s))) = None
        \<and> map_of (meta_views s) (upper (py_or sch (dbname s))) = None"
  then show "populate_scoped_cols s [(sch, rel, alias)] = Inr []"
    by (simp add: populate_scoped_cols_value resolved_columns_def lookup_relation_def
        py_or_cases)
next
  assume "consume data = Some ([rel, col] # rows)
        \<and> lookup_relation (get_meta s k) (upper schema) rel = None"
  then show "extend_columns s data k schema = Inl (KeyError, s)"
    by (auto simp: extend_columns_def escaped_names_def escape_name_def getitem_def
        lookup_relation_def split: option.splits)
qed

theorem enumeration_failure_contained_witness:
  "consume (Yield [''EMPLOYEES''] (Yield [''JOBS''] Raise)) = None
   \<and> extend_relations (extend_schemata (new_completer True [] []) [''hr''])
        (Yield [''EMPLOYEES''] (Yield [''JOBS''] Raise)) Tables ''hr''
      = Inr (extend_schemata (new_completer True [] []) [''hr''])
   \<and> extend_columns (extend_schemata (new_completer True [] []) [''hr''])
        (Yield [''EMPLOYEES''] (Yield [''JOBS''] Raise)) Tables ''hr''
      = Inr (extend_schemata (new_completer True [] []) [''hr''])
   \<and> extend_functions (extend_schemata (new_completer True [] []) [''hr''])
        (Yield [''EMPLOYEES''] (Yield [''JOBS''] Raise)) ''hr''
      = Inr (extend_schemata (new_completer True [] []) [''hr''])
   \<and> populate_schema_objects (extend_schemata (new_completer True [] []) [''hr''])
        (Some ''sales'') (Relations Tables) = Inr []
   \<and> populate_schema_objects (extend_schemata (new_completer True [] []) [''hr''])
        (Some ''sales'') Functions = Inr []
   \<and> populate_scoped_cols (extend_schemata (new_completer True [] []) [''hr''])
        [(Some ''sales'', ''ORDERS'', None)] = Inr []
   \<and> extend_columns (extend_schemata (new_completer True [] []) [''hr''])
        (Yield [''EMPLOYEES'', ''EMPLOYEE_ID''] Done) Tables ''hr''
      = Inl (KeyError, extend_schemata (new_completer True [] []) [''hr''])"
proof -
  let ?s = "extend_schemata (new_completer True [] []) [''hr'']"
  let ?data = "Yield [''EMPLOYEES''] (Yield [''JOBS''] Raise)"
  have c: "consume ?data = None" by simp
  have st: "meta_tables ?s = [(''HR'', [])]" "meta_views ?s = [(''HR'', [])]"
    "meta_functions ?s = [(''HR'', [])]" "dbname ?s = []"
    by (simp_all add: catalog_eval)
  have u: "upper ''sales'' = ''SALES''" "upper ''hr'' = ''HR''"
    by (simp_all add: upper_def char_upper_def)
  have h1: "map_of (get_meta ?s Tables) (upper (py_or (Some ''sales'') (dbname ?s))) = None"
    and h2: "map_of (meta_functions ?s) (upper (py_or (Some ''sales'') (dbname ?s))) = None"
    and h3: "map_of (meta_tables ?s) (upper (py_or (Some ''sales'') (dbname ?s))) = None
        \<and> map_of (meta_views ?s) (upper (py_or (Some ''sales'') (dbname ?s))) = None"
    by (simp_all add: st u py_or_def)
  have h4: "consume (Yield [''EMPLOYEES'', ''EMPLOYEE_ID''] Done) = Some ([''EMPLOYEES'', ''EMPLOYEE_ID''] # [])
        \<and> lookup_relation (get_meta ?s Tables) (upper ''hr'') ''EMPLOYEES'' = None"
    by (simp add: st u lookup_relation_def)
  from enumeration_failure_contained[of ?data ?s Tables "''hr''" "Some ''sales''" "''ORDERS''" None]
    c h1 h2 h3
  have a: "extend_relations ?s ?data Tables ''hr'' = Inr ?s"
    "extend_columns ?s ?data Tables ''hr'' = Inr ?s"
    "extend_functions ?s ?data ''hr'' = Inr ?s"
    "populate_schema_objects ?s (Some ''sales'') (Relations Tables) = Inr []"
    "populate_schema_objects ?s (Some ''sales'') Functions = Inr []"
    "populate_scoped_cols ?s [(Some ''sales'', ''ORDERS'', None)] = Inr []"
    by blast+
  from enumeration_failure_contained[of "Yield [''EMPLOYEES'', ''EMPLOYEE_ID''] Done" ?s Tables
      "''hr''" "Some ''sales''" "''EMPLOYEES''" None "''EMPLOYEE_ID''" "[]"] h4
  have b: "extend_columns ?s (Yield [''EMPLOYEES'', ''EMPLOYEE_ID''] Done) Tables ''hr''
      = Inl (KeyError, ?s)"
    by blast
  from c a b show ?thesis by blast
qed

text \<open>
  Claim C6 at an input where the code departs from it: \<^verbatim>\<open>reset_completions\<close> does not
  assign \<^verbatim>\<open>change_items\<close>, so the items added by \<^verbatim>\<open>extend_change_items\<close> stay after a
  reset, while \<^verbatim>\<open>show_items\<close> and \<^verbatim>\<open>users\<close>, filled the same way, are emptied.
\<close>

theorem reset_keeps_change_items:
  "change_items (reset_completions
     (extend_change_items (new_completer True [] []) [[''PASSWORD'']])) = [''PASSWORD'']
   \<and> show_items (reset_completions
     (extend_show_items (new_completer True [] []) [[''ERRORS'']])) = []
   \<and> users (reset_completions
     (extend_users (new_completer True [] []) [[''SCOTT'']])) = []"
  by (simp add: reset_completions_def extend_change_items_def extend_show_items_def
      extend_users_def new_completer_def)

lemma set_functions_list:
  "set functions_list = set (str_functions @ num_functions @ date_functions @ conv_functions
                    @ analytic_functions @ advanced_fuctions)"
  by (simp add: functions_list_def)

lemma no_schema_in_functions:
  "''HR'' \<notin> set (str_functions @ num_functions @ date_functions @ conv_functions
                    @ analytic_functions @ advanced_fuctions)"
  "''hr'' \<notin> set (str_functions @ num_functions @ date_functions @ conv_functions
                    @ analytic_functions @ advanced_fuctions)"
  by code_simp+

text \<open>
  Claim C9 at an input where the code departs from it: \<^verbatim>\<open>extend_schemata(['hr'])\<close>
  gives every dictionary the empty entry \<^verbatim>\<open>HR\<close>, but adds to \<^verbatim>\<open>all_completions\<close> the
  strings \<^verbatim>\<open>H\<close> and \<^verbatim>\<open>R\<close> and neither \<^verbatim>\<open>HR\<close> nor \<^verbatim>\<open>hr\<close>.
\<close>

theorem extend_schemata_adds_characters:
  "all_completions (extend_schemata (new_completer True [] [''SELECT'', ''FROM'']) [''hr''])
     = {''H'', ''R''} \<union> set ([''SELECT'', ''FROM''] @ functions_list)
   \<and> ''HR'' \<notin> all_completions (extend_schemata (new_completer True [] [''SELECT'', ''FROM'']) [''hr''])
   \<and> ''hr'' \<notin> all_completions (extend_schemata (new_completer True [] [''SELECT'', ''FROM'']) [''hr''])
   \<and> meta_tables (extend_schemata (new_completer True [] [''SELECT'', ''FROM'']) [''hr'']) = [(''HR'', [])]
   \<and> meta_views (extend_schemata (new_completer True [] [''SELECT'', ''FROM'']) [''hr'']) = [(''HR'', [])]
   \<and> meta_functions (extend_schemata (new_completer True [] [''SELECT'', ''FROM'']) [''hr'']) = [(''HR'', [])]"
proof -
  let ?s = "extend_schemata (new_completer True [] [''SELECT'', ''FROM'']) [''hr'']"
  have a: "all_completions ?s = {''H'', ''R''} \<union> set ([''SELECT'', ''FROM''] @ functions_list)"
    by (auto simp: catalog_eval)
  have m: "meta_tables ?s = [(''HR'', [])]" "meta_views ?s = [(''HR'', [])]"
    "meta_functions ?s = [(''HR'', [])]"
    by (simp_all add: catalog_eval)
  from a no_schema_in_functions have "''HR'' \<notin> all_completions ?s" "''hr'' \<notin> all_completions ?s"
    by (simp_all add: set_functions_list)
  with a m show ?thesis by blast
qed

end
